theory Spec2Isabelle
  imports Complex_Main "HOL-Library.Sublist"
begin

section \<open>Values shared by the test explorer\<close>

text \<open>
  A value thrown by the TypeScript code: either a process exit code (the standard
  session rejects its promise with the numeric code) or an \<open>Error\<close> object, of which only
  the description is kept.  \<open>TypeError\<close> is the runtime's own error for a property read
  on \<open>undefined\<close>.
\<close>

datatype js_error = ExitCode int | Error string | TypeError string

text \<open>
  A JavaScript \<open>number\<close> is an IEEE 754 double: a finite value, one of the two infinities,
  or \<open>NaN\<close>.  The finite values are carried as reals; the two zeros, which \<open>===\<close> does not
  tell apart, are one value.
\<close>

datatype number = Finite real | PosInfinity | NegInfinity | NaN

text \<open>The integer nearest to a real, the even one of the two when it lies halfway.\<close>

definition round_half_even :: "real \<Rightarrow> int" where
  "round_half_even x =
     (let n = \<lfloor>x\<rfloor>; r = x - of_int n
      in if r < 1 / 2 then n else if 1 / 2 < r then n + 1 else if even n then n else n + 1)"

text \<open>
  The double nearest to a real (round to nearest, ties to even).  The significand has 53
  bits, so a value between \<open>2 ^ e\<close> and \<open>2 ^ (e + 1)\<close> is rounded to a multiple of
  \<open>2 ^ (e - 52)\<close>; below \<open>2 ^ - 1022\<close> the spacing stays \<open>2 ^ - 1074\<close>; a result of
  magnitude \<open>2 ^ 1024\<close> or more is an infinity.  This is also the value of a decimal
  literal.
\<close>

definition binary64 :: "real \<Rightarrow> number" where
  "binary64 x =
     (if x = 0 then Finite 0
      else
        let e = max \<lfloor>log 2 \<bar>x\<bar>\<rfloor> (- 1022) - 52;
            y = of_int (round_half_even (x / 2 powr of_int e)) * 2 powr of_int e
        in if 2 ^ 1024 \<le> \<bar>y\<bar> then (if 0 < x then PosInfinity else NegInfinity) else Finite y)"

text \<open>The operators \<open>-\<close> and \<open>*\<close> on numbers: the exact result, rounded.\<close>

fun number_minus :: "number \<Rightarrow> number \<Rightarrow> number" where
  "number_minus (Finite a) (Finite b) = binary64 (a - b)"
| "number_minus NaN y = NaN"
| "number_minus x NaN = NaN"
| "number_minus PosInfinity PosInfinity = NaN"
| "number_minus NegInfinity NegInfinity = NaN"
| "number_minus PosInfinity y = PosInfinity"
| "number_minus NegInfinity y = NegInfinity"
| "number_minus (Finite a) PosInfinity = NegInfinity"
| "number_minus (Finite a) NegInfinity = PosInfinity"

fun number_times :: "number \<Rightarrow> number \<Rightarrow> number" where
  "number_times (Finite a) (Finite b) = binary64 (a * b)"
| "number_times NaN y = NaN"
| "number_times x NaN = NaN"
| "number_times (Finite a) y =
     (if a = 0 then NaN else if (0 < a) = (y = PosInfinity) then PosInfinity else NegInfinity)"
| "number_times x (Finite b) =
     (if b = 0 then NaN else if (0 < b) = (x = PosInfinity) then PosInfinity else NegInfinity)"
| "number_times x y = (if x = y then PosInfinity else NegInfinity)"

text \<open>
  A test item as the run list sees it (\<open>vscode.TestItem\<close>): its id, its label and the
  chain of its parents.  The finder of the non-Darwin platforms reads
  \<open>item.parent?.parent\<close>.
\<close>

datatype run_test_item =
  RunTestItem (item_id: string) (item_label: string) (item_parent: "run_test_item option")

text \<open>A \<open>vscode.TestMessage\<close>: the message and the optional location (file, line).\<close>

record TestMessage =
  message :: string
  msg_location :: "(string \<times> nat) option"

text \<open>A \<open>vscode.Location\<close>: the file of the uri and the range (first and last line).\<close>

record location =
  fsPath :: string
  range :: "nat \<times> nat"

text \<open>A \<open>TestClass\<close> of the discovery: an item of the language server with an optional
  location.\<close>

datatype test_class =
  TestClass (tc_id: string) (tc_label: string) (tc_disabled: bool) (tc_style: string)
    (tc_location: "location option") (tc_tags: "string list") (tc_children: "test_class list")

text \<open>
  The \<open>vscode.TestRun\<close> created by the controller is the host's object.  It is modelled
  by the calls it has received, in order.  \<open>testItems[index]\<close> out of range is
  \<open>undefined\<close> in JavaScript, so the item of a call is optional.  \<open>RunComputeCoverage\<close>
  records that the run was handed to the coverage collaborator.
\<close>

datatype run_call =
    RunEnqueued "run_test_item option"
  | RunStarted "run_test_item option"
  | RunSkipped "run_test_item option"
  | RunPassed "run_test_item option" "number option"
  | RunFailed "run_test_item option" "TestMessage list" "number option"
  | RunErrored "run_test_item option" "TestMessage list" "number option"
  | RunAppendOutput string
  | RunComputeCoverage
  | RunEnd

text \<open>
  The test explorer awaits collaborators of the host: the build task, the spawned
  process, the debugger, the file system, the coverage.  An awaited collaborator settles
  with a value, rejects with an error, or never settles.
\<close>

datatype 'a awaited = Settles 'a | Rejects js_error | Never

section \<open>TestRunProxy\<close>

text \<open>
  The fields of class \<open>TestRunProxy\<close>.  \<open>testRun\<close> is \<open>None\<close> until
  \<open>testRunStarted\<close> has created the run.  \<open>args_testItems\<close> is \<open>args.testItems\<close>, the
  items of the run arguments, with which \<open>testItems\<close> starts.  \<open>addedTestItems\<close> holds the
  parameterised cases registered by the streamed-event parser, each with the index of its
  parent.  \<open>endInvocations\<close> is bookkeeping of this development only: it counts the
  invocations of \<open>end()\<close>, and no operation reads it.
\<close>

record TestRunProxy =
  testRun :: "run_call list option"
  addedTestItems :: "(test_class \<times> int) list"
  runStarted :: bool
  queuedOutput :: "string list"
  args_testItems :: "run_test_item list"
  testItems :: "run_test_item list"
  runState_failed :: "(run_test_item option) list"
  runState_passed :: "(run_test_item option) list"
  runState_skipped :: "(run_test_item option) list"
  runState_errored :: "(run_test_item option) list"
  endInvocations :: nat

text \<open>The constructor: the items of the run arguments, no run yet.\<close>

definition new_TestRunProxy :: "run_test_item list \<Rightarrow> TestRunProxy" where
  "new_TestRunProxy argItems =
     \<lparr> testRun = None, addedTestItems = [], runStarted = False, queuedOutput = [],
       args_testItems = argItems, testItems = argItems,
       runState_failed = [], runState_passed = [], runState_skipped = [],
       runState_errored = [], endInvocations = 0 \<rparr>"

text \<open>
  The outcome of a step that may throw or await: it returns, it throws, or it never
  comes back (an awaited promise stays pending).  The proxy is mutated in place, so its
  state comes with a return and with a throw.
\<close>

datatype outcome = Returns TestRunProxy | Throws js_error TestRunProxy | Hangs

text \<open>\<open>this.testRun?.f(...)\<close>: the call reaches the run only when the run exists.\<close>

definition onRun :: "run_call \<Rightarrow> TestRunProxy \<Rightarrow> TestRunProxy" where
  "onRun c p = p\<lparr>testRun := map_option (\<lambda>calls. calls @ [c]) (testRun p)\<rparr>"

text \<open>\<open>testItems[index]\<close>: \<open>undefined\<close> outside the list.\<close>

definition itemAt :: "run_test_item list \<Rightarrow> int \<Rightarrow> run_test_item option" where
  "itemAt items index =
     (if 0 \<le> index \<and> index < int (length items) then Some (items ! nat index) else None)"

text \<open>
  Modelled from the spec: the runner imports \<open>upsertTestItem\<close> from the discovery and
  appends the item it returns to the items of the run, while the function of that name in
  \<open>TestDiscovery.ts\<close> is not exported and returns nothing.  By the specification the upsert
  returns the live node of the catalog for the incoming item below the given parent; for
  the run list this is the item with the id and the label of the incoming item and that
  parent.
\<close>

definition upsertTestItem_imported :: "test_class \<Rightarrow> run_test_item \<Rightarrow> run_test_item" where
  "upsertTestItem_imported testClass parent =
     RunTestItem (tc_id testClass) (tc_label testClass) (Some parent)"

text \<open>
  \<open>testRunStarted\<close> does nothing on a second call.  On the first it looks up the parent
  of every registered case, \<open>args.testItems[parentIndex]\<close>, and clears its children: for an
  index outside the items the parent is \<open>undefined\<close> and the read of \<open>parent.children\<close>
  throws, with \<open>runStarted\<close> already set and no run created.  Otherwise the cases are
  upserted below their parents, the run is created, the items of the run are extended by
  the added items, the queued output is forwarded and every item is enqueued.  The result
  is the error thrown, if any, and the proxy.  The children of an item are not part of
  the view that the run list has of it, so the clearing of the children and the adding of
  the parents to their collections again leave no trace here.
\<close>

definition testRunStarted :: "TestRunProxy \<Rightarrow> js_error option \<times> TestRunProxy" where
  "testRunStarted p =
     (if runStarted p then (None, p)
      else
        let p1 = p\<lparr>runStarted := True\<rparr>
        in case those (map (\<lambda>(testClass, parentIndex). itemAt (args_testItems p1) parentIndex)
                         (addedTestItems p1)) of
             None \<Rightarrow> (Some (TypeError ''Cannot read properties of undefined''), p1)
           | Some parents \<Rightarrow>
               let added = map2 (\<lambda>(testClass, parentIndex) parent.
                                   upsertTestItem_imported testClass parent)
                             (addedTestItems p1) parents;
                   items = testItems p1 @ added
               in (None,
                   p1\<lparr> testItems := items,
                       testRun := Some (map RunAppendOutput (queuedOutput p1)
                                          @ map (\<lambda>t. RunEnqueued (Some t)) items),
                       queuedOutput := [] \<rparr>))"

definition addParameterizedTestCase :: "test_class \<Rightarrow> int \<Rightarrow> TestRunProxy \<Rightarrow> TestRunProxy" where
  "addParameterizedTestCase testClass parentIndex p =
     p\<lparr>addedTestItems := addedTestItems p @ [(testClass, parentIndex)]\<rparr>"

definition started_proxy :: "run_test_item option \<Rightarrow> TestRunProxy \<Rightarrow> TestRunProxy" where
  "started_proxy t p = onRun (RunStarted t) p"

definition skipped_proxy :: "run_test_item option \<Rightarrow> TestRunProxy \<Rightarrow> TestRunProxy" where
  "skipped_proxy t p = onRun (RunSkipped t) (p\<lparr>runState_skipped := runState_skipped p @ [t]\<rparr>)"

definition passed_proxy ::
  "run_test_item option \<Rightarrow> number option \<Rightarrow> TestRunProxy \<Rightarrow> TestRunProxy" where
  "passed_proxy t duration p =
     onRun (RunPassed t duration) (p\<lparr>runState_passed := runState_passed p @ [t]\<rparr>)"

definition failed_proxy ::
  "run_test_item option \<Rightarrow> TestMessage list \<Rightarrow> number option \<Rightarrow> TestRunProxy \<Rightarrow> TestRunProxy" where
  "failed_proxy t msgs duration p =
     onRun (RunFailed t msgs duration) (p\<lparr>runState_failed := runState_failed p @ [t]\<rparr>)"

definition errored_proxy ::
  "run_test_item option \<Rightarrow> TestMessage list \<Rightarrow> number option \<Rightarrow> TestRunProxy \<Rightarrow> TestRunProxy" where
  "errored_proxy t msgs duration p =
     onRun (RunErrored t msgs duration) (p\<lparr>runState_errored := runState_errored p @ [t]\<rparr>)"

text \<open>
  \<open>end()\<close>: nothing happens when no run was created.  Otherwise \<open>computeCoverage\<close> of the
  coverage collaborator, which is the host's and a parameter here, is awaited on the run,
  and only when it settles is the run ended: when it rejects, \<open>end()\<close> throws with the run
  not ended, and when it stays pending, \<open>end()\<close> does not come back.
\<close>

definition end_proxy :: "(run_call list \<Rightarrow> unit awaited) \<Rightarrow> TestRunProxy \<Rightarrow> outcome" where
  "end_proxy computeCoverage p =
     (let p1 = p\<lparr>endInvocations := Suc (endInvocations p)\<rparr>
      in case testRun p1 of
           None \<Rightarrow> Returns p1
         | Some calls \<Rightarrow>
             (case computeCoverage calls of
                Never \<Rightarrow> Hangs
              | Rejects e \<Rightarrow> Throws e (p1\<lparr>testRun := Some (calls @ [RunComputeCoverage])\<rparr>)
              | Settles u \<Rightarrow>
                  Returns (p1\<lparr>testRun := Some (calls @ [RunComputeCoverage, RunEnd])\<rparr>)))"

definition appendOutput :: "string \<Rightarrow> TestRunProxy \<Rightarrow> TestRunProxy" where
  "appendOutput out p =
     (case testRun p of
        Some calls \<Rightarrow> p\<lparr>testRun := Some (calls @ [RunAppendOutput out])\<rparr>
      | None \<Rightarrow> p\<lparr>queuedOutput := queuedOutput p @ [out]\<rparr>)"

section \<open>TestRunnerTestRunState\<close>

text \<open>
  The state that the output parsers drive.  \<open>startTimes\<close> maps an index to
  \<open>number | undefined\<close>; \<open>Map.get\<close> of a missing key is \<open>undefined\<close> as well, so both
  read as \<open>None\<close>.  An index is a JavaScript number; the finders return \<open>-1\<close> for a miss.
\<close>

record failed_test =
  ft_testIndex :: int
  ft_message :: string
  ft_file :: string
  ft_lineNumber :: nat
  ft_complete :: bool

record TestRunnerTestRunState =
  rs_testRun :: TestRunProxy
  currentTestItem :: "run_test_item option"
  lastTestItem :: "run_test_item option"
  excess :: "string option"
  failedTest :: "failed_test option"
  startTimes :: "int \<Rightarrow> number option option"
  issues :: "int \<Rightarrow> TestMessage list option"

definition new_TestRunnerTestRunState :: "TestRunProxy \<Rightarrow> TestRunnerTestRunState" where
  "new_TestRunnerTestRunState p =
     \<lparr> rs_testRun = p, currentTestItem = None, lastTestItem = None, excess = None,
       failedTest = None, startTimes = Map.empty, issues = Map.empty \<rparr>"

definition getStartTime :: "TestRunnerTestRunState \<Rightarrow> int \<Rightarrow> number option" where
  "getStartTime st index = (case startTimes st index of None \<Rightarrow> None | Some v \<Rightarrow> v)"

definition started :: "int \<Rightarrow> number option \<Rightarrow> TestRunnerTestRunState \<Rightarrow> TestRunnerTestRunState" where
  "started index startTime st =
     (let testItem = itemAt (testItems (rs_testRun st)) index
      in st\<lparr> rs_testRun := started_proxy testItem (rs_testRun st),
              currentTestItem := testItem,
              startTimes := (startTimes st)(index \<mapsto> startTime) \<rparr>)"

text \<open>The two forms of the timing argument of \<open>completed\<close>.\<close>

datatype timing = Duration number | Timestamp number

definition timestamp_error :: string where
  "timestamp_error =
     ''Timestamp was provided on test completion, but there was no startTime set when the test was started.''"

text \<open>The local \<open>duration\<close> of \<open>completed\<close>: the branch on the form of the timing, with
  the arithmetic of numbers.  The literal \<open>1000\<close> is a double as it stands.\<close>

fun completed_duration :: "timing \<Rightarrow> number option \<Rightarrow> js_error + number" where
  "completed_duration (Timestamp ts) None = Inl (Error timestamp_error)"
| "completed_duration (Timestamp ts) (Some startTime) =
     Inr (number_times (number_minus ts startTime) (Finite 1000))"
| "completed_duration (Duration d) startTime = Inr (number_times d (Finite 1000))"

definition completed :: "int \<Rightarrow> timing \<Rightarrow> TestRunnerTestRunState \<Rightarrow> js_error + TestRunnerTestRunState" where
  "completed index tm st =
     (let test = itemAt (testItems (rs_testRun st)) index;
          startTime = getStartTime st index
      in case completed_duration tm startTime of
           Inl e \<Rightarrow> Inl e
         | Inr duration \<Rightarrow>
             let iss = (case issues st index of None \<Rightarrow> [] | Some l \<Rightarrow> l);
                 p = (if length iss > 0
                      then failed_proxy test iss (Some duration) (rs_testRun st)
                      else passed_proxy test (Some duration) (rs_testRun st))
             in Inr (st\<lparr> rs_testRun := p,
                          lastTestItem := currentTestItem st,
                          currentTestItem := None \<rparr>))"

definition recordIssue ::
  "int \<Rightarrow> string \<Rightarrow> (string \<times> nat) option \<Rightarrow> TestRunnerTestRunState \<Rightarrow> TestRunnerTestRunState" where
  "recordIssue index m loc st =
     (let msg = \<lparr> message = m, msg_location = loc \<rparr>;
          issueList = (case issues st index of None \<Rightarrow> [] | Some l \<Rightarrow> l)
      in st\<lparr>issues := (issues st)(index \<mapsto> issueList @ [msg])\<rparr>)"

definition skipped :: "int \<Rightarrow> TestRunnerTestRunState \<Rightarrow> TestRunnerTestRunState" where
  "skipped index st =
     st\<lparr> rs_testRun := skipped_proxy (itemAt (testItems (rs_testRun st)) index) (rs_testRun st),
         lastTestItem := currentTestItem st,
         currentTestItem := None \<rparr>"

text \<open>A run of one test, used to exercise the definitions: the run is started, the test
  with index 0 starts at 10.0 seconds.\<close>

definition example_item :: run_test_item where
  "example_item = RunTestItem ''PackageTests.PassingXCTestSuite/testPassing'' ''testPassing'' None"

definition example_started :: TestRunnerTestRunState where
  "example_started =
     started 0 (Some (binary64 10.0))
       (new_TestRunnerTestRunState (snd (testRunStarted (new_TestRunProxy [example_item]))))"

section \<open>Finding the test item of a reported id\<close>

text \<open>\<open>Array.prototype.findIndex\<close>: the index of the first element that satisfies the
  predicate, \<open>-1\<close> when there is none.\<close>

fun findIndex :: "('a \<Rightarrow> bool) \<Rightarrow> 'a list \<Rightarrow> int" where
  "findIndex P [] = - 1"
| "findIndex P (x # xs) =
     (if P x then 0 else (let i = findIndex P xs in if i = - 1 then - 1 else i + 1))"

text \<open>The targets of the package description (\<open>Target\<close> of \<open>SwiftPackage\<close>).\<close>

datatype target_type = executable | test | library

record Target =
  name :: string
  path :: string
  sources :: "string list"
  type :: target_type

record SwiftPackage =
  targets :: "Target list"

definition getTargets :: "SwiftPackage \<Rightarrow> target_type \<Rightarrow> Target list" where
  "getTargets pkg ty = filter (\<lambda>target. type target = ty) (targets pkg)"

text \<open>\<open>DarwinTestItemFinder.getIndex\<close>: the reported id is the id of the item.\<close>

definition getIndex_Darwin :: "run_test_item list \<Rightarrow> string \<Rightarrow> int" where
  "getIndex_Darwin items ident = findIndex (\<lambda>item. item_id item = ident) items"

text \<open>
  \<open>NonDarwinTestItemFinder\<close>.  The folder context gives the folder of the package and
  the package; \<open>path.join\<close> and \<open>path.relative\<close> are the platform's, and are parameters
  \<open>pjoin\<close> and \<open>prelative\<close> here.
\<close>

record FolderContext =
  folder :: string
  swiftPackage :: SwiftPackage

definition isTestWithFilenameInTarget ::
  "(string \<Rightarrow> string \<Rightarrow> string) \<Rightarrow> (string \<Rightarrow> string \<Rightarrow> string) \<Rightarrow> FolderContext
     \<Rightarrow> string \<Rightarrow> string \<Rightarrow> run_test_item \<Rightarrow> bool" where
  "isTestWithFilenameInTarget pjoin prelative ctx testName filename item =
     (if \<not> suffix testName (item_id item) then False
      else case Option.bind (item_parent item) item_parent of
             None \<Rightarrow> False
           | Some targetTestItem \<Rightarrow>
               (case find (\<lambda>t. item_label targetTestItem = name t) (targets (swiftPackage ctx)) of
                  Some target \<Rightarrow>
                    (let fileErrorIsIn = filename;
                         targetPath = pjoin (folder ctx) (path target);
                         relativePath = prelative targetPath fileErrorIsIn
                     in find (\<lambda>source. source = relativePath) (sources target) \<noteq> None)
                | None \<Rightarrow> False))"

text \<open>\<open>if (filename)\<close>: the hint counts when it is given and not the empty string.\<close>

definition truthy :: "string option \<Rightarrow> bool" where
  "truthy s = (case s of None \<Rightarrow> False | Some v \<Rightarrow> v \<noteq> [])"

definition getIndex_NonDarwin ::
  "(string \<Rightarrow> string \<Rightarrow> string) \<Rightarrow> (string \<Rightarrow> string \<Rightarrow> string) \<Rightarrow> FolderContext
     \<Rightarrow> run_test_item list \<Rightarrow> string \<Rightarrow> string option \<Rightarrow> int" where
  "getIndex_NonDarwin pjoin prelative ctx items ident filename =
     (let testIndex =
            (if truthy filename
             then findIndex (isTestWithFilenameInTarget pjoin prelative ctx ident (the filename)) items
             else - 1)
      in if testIndex = - 1 then findIndex (\<lambda>item. suffix ident (item_id item)) items
         else testIndex)"

text \<open>\<open>TestRunProxy.getTestIndex\<close>: the finder is chosen by the platform.\<close>

definition getTestIndex ::
  "bool \<Rightarrow> (string \<Rightarrow> string \<Rightarrow> string) \<Rightarrow> (string \<Rightarrow> string \<Rightarrow> string) \<Rightarrow> FolderContext
     \<Rightarrow> TestRunProxy \<Rightarrow> string \<Rightarrow> string option \<Rightarrow> int" where
  "getTestIndex darwin pjoin prelative ctx p ident filename =
     (if darwin then getIndex_Darwin (testItems p) ident
      else getIndex_NonDarwin pjoin prelative ctx (testItems p) ident filename)"

text \<open>\<open>i\<close> is the index of the first element of \<open>xs\<close> that satisfies \<open>P\<close>.\<close>

definition first_index :: "('a \<Rightarrow> bool) \<Rightarrow> 'a list \<Rightarrow> int \<Rightarrow> bool" where
  "first_index P xs i =
     (0 \<le> i \<and> nat i < length xs \<and> P (xs ! nat i) \<and> (\<forall>j. j < nat i \<longrightarrow> \<not> P (xs ! j)))"

section \<open>Discovery through the language server\<close>

text \<open>An \<open>LSPTestItem\<close> as the server sends it, its location already in the editor's
  form.\<close>

datatype lsp_test_item =
  LSPTestItem (lsp_id: string) (lsp_label: string) (lsp_disabled: bool) (lsp_style: string)
    (lsp_location: location) (lsp_tags: "string list") (lsp_children: "lsp_test_item list")

text \<open>\<open>s.replace(/\(\)$/, "")\<close>: a trailing pair of parentheses is dropped.\<close>

definition stripParens :: "string \<Rightarrow> string" where
  "stripParens s = (if suffix ''()'' s then take (length s - 2) s else s)"

text \<open>
  \<open>transformId\<close>.  \<open>SwiftPackage.getTarget\<close>, which gives the target that owns a file, is
  the parameter \<open>getTarget\<close>.
\<close>

definition transformId ::
  "(string \<Rightarrow> Target option) \<Rightarrow> lsp_test_item \<Rightarrow> location \<Rightarrow> SwiftPackage \<Rightarrow> string" where
  "transformId getTarget item loc pkg =
     (if lsp_style item = ''XCTest''
      then
        (let target = find (\<lambda>target. getTarget (fsPath loc) = Some target) (getTargets pkg test);
             ident = (case target of Some t \<Rightarrow> name t @ ''.'' | None \<Rightarrow> '''')
         in ident @ stripParens (lsp_id item))
      else lsp_id item)"

fun transform :: "(string \<Rightarrow> Target option) \<Rightarrow> SwiftPackage \<Rightarrow> lsp_test_item \<Rightarrow> test_class" where
  "transform getTarget pkg (LSPTestItem i l d s loc tgs cs) =
     TestClass (transformId getTarget (LSPTestItem i l d s loc tgs cs) loc pkg) l d s (Some loc) tgs
       (map (transform getTarget pkg) cs)"

text \<open>The package of the examples: one test target and one library.\<close>

definition example_target :: Target where
  "example_target =
     \<lparr> name = ''PackageTests'', path = ''Tests/PackageTests'',
       sources = [''PackageTests.swift''], type = test \<rparr>"

definition example_package :: SwiftPackage where
  "example_package =
     \<lparr> targets = [\<lparr> name = ''PackageLib'', path = ''Sources/PackageLib'',
                     sources = [''PackageLib.swift''], type = library \<rparr>,
                   example_target] \<rparr>"

definition example_getTarget :: "string \<Rightarrow> Target option" where
  "example_getTarget file =
     (if file = ''/pkg/Tests/PackageTests/PackageTests.swift'' then Some example_target else None)"

definition example_lsp_item :: lsp_test_item where
  "example_lsp_item =
     LSPTestItem ''PassingXCTestSuite/testPassing()'' ''testPassing()'' False ''XCTest''
       \<lparr> fsPath = ''/pkg/Tests/PackageTests/PackageTests.swift'', range = (4, 6) \<rparr> [] []"

text \<open>Run items of two targets that hold a test of the same name, and stand-ins for the
  two path functions that suffice for them.\<close>

definition example_run_items :: "run_test_item list" where
  "example_run_items =
     [RunTestItem ''OtherTests.Suite/testA'' ''testA''
        (Some (RunTestItem ''OtherTests.Suite'' ''Suite''
           (Some (RunTestItem ''OtherTests'' ''OtherTests'' None)))),
      RunTestItem ''PackageTests.Suite/testA'' ''testA''
        (Some (RunTestItem ''PackageTests.Suite'' ''Suite''
           (Some (RunTestItem ''PackageTests'' ''PackageTests'' None))))]"

definition example_join :: "string \<Rightarrow> string \<Rightarrow> string" where
  "example_join a b = a @ ''/'' @ b"

definition example_relative :: "string \<Rightarrow> string \<Rightarrow> string" where
  "example_relative from to = (if prefix (from @ ''/'') to then drop (length from + 1) to else to)"

definition example_folder :: FolderContext where
  "example_folder = \<lparr> folder = ''/pkg'', swiftPackage = example_package \<rparr>"

section \<open>TestRunner\<close>

datatype TestKind = standard | parallel | coverage

text \<open>
  The output parsers are not part of the runner.  What a parser reports on a chunk of
  output reaches the test run through the run state and the two callbacks handed to the
  streamed-event parser; it is a list of these operations of \<open>TestRunProxy\<close>.  None of
  them is \<open>end()\<close>, which only \<open>runHandler\<close> calls.  An error thrown by the callback
  \<open>testRunStarted\<close> is thrown into the parser; the proxy is left as the callback left it,
  and the list goes on with what the parser did after it.
\<close>

datatype proxy_op =
    OpTestRunStarted
  | OpAddParameterizedTestCase test_class int
  | OpStarted "run_test_item option"
  | OpSkipped "run_test_item option"
  | OpPassed "run_test_item option" "number option"
  | OpFailed "run_test_item option" "TestMessage list" "number option"
  | OpErrored "run_test_item option" "TestMessage list" "number option"

fun apply_op :: "proxy_op \<Rightarrow> TestRunProxy \<Rightarrow> TestRunProxy" where
  "apply_op OpTestRunStarted p = snd (testRunStarted p)"
| "apply_op (OpAddParameterizedTestCase testClass parentIndex) p =
     addParameterizedTestCase testClass parentIndex p"
| "apply_op (OpStarted t) p = started_proxy t p"
| "apply_op (OpSkipped t) p = skipped_proxy t p"
| "apply_op (OpPassed t d) p = passed_proxy t d p"
| "apply_op (OpFailed t ms d) p = failed_proxy t ms d p"
| "apply_op (OpErrored t ms d) p = errored_proxy t ms d p"

text \<open>
  A spawned \<open>SwiftProcess\<close>, as its listeners see it: chunks of output (each with what
  the parser of the session reports on it) and events of the pipe of the streamed-event
  parser, and then the way the process ends.  \<open>onDidClose\<close> is still called after an
  error.
\<close>

datatype proc_activity = Wrote string "proxy_op list" | Piped "proxy_op list"

datatype proc_end =
    Closes "int option"
  | ThrowsThenCloses js_error "int option"
  | NeverCloses

record process =
  activity :: "proc_activity list"
  ending :: proc_end

text \<open>\<open>str.replace(pat, "")\<close> with a string pattern drops its first occurrence;
  \<open>text.replace(/\n/g, "\r\n")\<close> turns every line feed into carriage return, line feed.\<close>

fun dropFirst :: "string \<Rightarrow> string \<Rightarrow> string" where
  "dropFirst pat [] = []"
| "dropFirst pat (c # cs) =
     (if prefix pat (c # cs) then drop (length pat) (c # cs) else c # dropFirst pat cs)"

definition crlf :: "string \<Rightarrow> string" where
  "crlf s = concat (map (\<lambda>c. if c = CHR 0x0A then [CHR 0x0D, CHR 0x0A] else [c]) s)"

definition errorText :: "(js_error \<Rightarrow> string) \<Rightarrow> js_error \<Rightarrow> string" where
  "errorText describe e = [CHR 0x0D, CHR 0x0A] @ ''Error: '' @ describe e"

text \<open>The two writable streams of \<open>runSession\<close>: the one of the streamed-event
  framework only forwards the text, the one of the classic framework also parses it.\<close>

datatype output_stream = forwarding | parsing

fun stream_write :: "output_stream \<Rightarrow> string \<Rightarrow> proxy_op list \<Rightarrow> TestRunProxy \<Rightarrow> TestRunProxy" where
  "stream_write forwarding text ops p = appendOutput (crlf text) p"
| "stream_write parsing text ops p = fold apply_op ops (appendOutput (crlf text) p)"

text \<open>The promise of \<open>runStandardSession\<close>: \<open>resolve\<close> and \<open>reject\<close> settle it once.\<close>

datatype promise = Pending | Resolved | Rejected js_error

definition resolve :: "promise \<Rightarrow> promise" where
  "resolve pr = (case pr of Pending \<Rightarrow> Resolved | _ \<Rightarrow> pr)"

definition reject :: "js_error \<Rightarrow> promise \<Rightarrow> promise" where
  "reject e pr = (case pr of Pending \<Rightarrow> Rejected e | _ \<Rightarrow> pr)"

record session =
  didError :: bool
  settled :: promise
  proxy :: TestRunProxy

definition onDidWrite :: "output_stream \<Rightarrow> proc_activity \<Rightarrow> session \<Rightarrow> session" where
  "onDidWrite out a s =
     (case a of
        Wrote str ops \<Rightarrow>
          s\<lparr>proxy := stream_write out (dropFirst ''[1/1] Planning build'' str) ops (proxy s)\<rparr>
      | Piped ops \<Rightarrow> s\<lparr>proxy := fold apply_op ops (proxy s)\<rparr>)"

definition onDidThrowError :: "js_error \<Rightarrow> session \<Rightarrow> session" where
  "onDidThrowError err s = s\<lparr>didError := True, settled := reject err (settled s)\<rparr>"

text \<open>\<open>!code\<close> holds for \<open>undefined\<close> and for \<open>0\<close>.\<close>

definition onDidClose :: "int option \<Rightarrow> session \<Rightarrow> session" where
  "onDidClose code s =
     (if didError s then s
      else case code of
             None \<Rightarrow> s\<lparr>settled := resolve (settled s)\<rparr>
           | Some c \<Rightarrow>
               if c = 0 then s\<lparr>settled := resolve (settled s)\<rparr>
               else s\<lparr>settled := reject (ExitCode c) (settled s)\<rparr>)"

definition runStandardSession :: "output_stream \<Rightarrow> process \<Rightarrow> TestRunProxy \<Rightarrow> session" where
  "runStandardSession out pr p =
     (let s0 = \<lparr> didError = False, settled = Pending, proxy = p \<rparr>;
          s1 = fold (onDidWrite out) (activity pr) s0
      in case ending pr of
           Closes code \<Rightarrow> onDidClose code s1
         | ThrowsThenCloses err code \<Rightarrow> onDidClose code (onDidThrowError err s1)
         | NeverCloses \<Rightarrow> s1)"

text \<open>The outcome of awaiting the promise of the session.\<close>

definition of_session :: "session \<Rightarrow> outcome" where
  "of_session s =
     (case settled s of
        Pending \<Rightarrow> Hangs
      | Resolved \<Rightarrow> Returns (proxy s)
      | Rejected e \<Rightarrow> Throws e (proxy s))"

text \<open>What the runner asks of its environment during one run.\<close>

record run_env =
  describe :: "js_error \<Rightarrow> string"
  now :: string
  buildTask :: "int option awaited"
  hasSwiftTestingTests :: bool
  hasXCTests :: bool
  mkfifo :: "unit awaited"
  swiftTestingConfig :: bool
  cancelledBeforeSwiftTesting :: bool
  watchPipe :: "unit awaited"
  swiftTestingProcess :: process
  xcTestConfig :: bool
  cancelledBeforeXCTest :: bool
  xcTestProcess :: process
  captureCoverage :: "unit awaited"
  computeCoverage :: "run_call list \<Rightarrow> unit awaited"
  readXUnitFile :: "string awaited"
  parseXUnit :: "string \<Rightarrow> proxy_op list \<times> (nat \<times> nat \<times> nat) option"
  showNumber :: "nat \<Rightarrow> string"
  debugActivity :: "proc_activity list"
  debugEnding :: "unit awaited"

text \<open>\<open>error !== 1\<close>: the thrown value is not the exit code 1.\<close>

definition isTestFailure :: "js_error \<Rightarrow> bool" where
  "isTestFailure e = (e = ExitCode 1)"

definition runCoverageSession :: "run_env \<Rightarrow> output_stream \<Rightarrow> process \<Rightarrow> TestRunProxy \<Rightarrow> outcome" where
  "runCoverageSession env out pr p =
     (let capture = (\<lambda>q. case captureCoverage env of
                            Settles _ \<Rightarrow> Returns q | Rejects e \<Rightarrow> Throws e q | Never \<Rightarrow> Hangs)
      in case of_session (runStandardSession out pr p) of
           Hangs \<Rightarrow> Hangs
         | Returns q \<Rightarrow> capture q
         | Throws e q \<Rightarrow> if \<not> isTestFailure e then Throws e q else capture q)"

definition executedText :: "(nat \<Rightarrow> string) \<Rightarrow> nat \<times> nat \<times> nat \<Rightarrow> string" where
  "executedText sh r =
     (case r of (tests, failures, errors) \<Rightarrow>
        [CHR 0x0D, CHR 0x0A] @ ''Executed '' @ sh tests @ '' tests, with '' @ sh failures
          @ '' failures and '' @ sh errors @ '' errors.'' @ [CHR 0x0D, CHR 0x0A])"

definition runParallelSession :: "run_env \<Rightarrow> output_stream \<Rightarrow> process \<Rightarrow> TestRunProxy \<Rightarrow> outcome" where
  "runParallelSession env out pr p =
     (let report = (\<lambda>q. case readXUnitFile env of
                           Never \<Rightarrow> Hangs
                         | Rejects e \<Rightarrow> Throws e q
                         | Settles buffer \<Rightarrow>
                             (case parseXUnit env buffer of (ops, results) \<Rightarrow>
                                (let q1 = fold apply_op ops q
                                 in case results of
                                      None \<Rightarrow> Returns q1
                                    | Some r \<Rightarrow> Returns (appendOutput (executedText (showNumber env) r) q1))))
      in case testRunStarted p of
           (Some e, p1) \<Rightarrow> Throws e p1
         | (None, p1) \<Rightarrow>
             (case of_session (runStandardSession out pr p1) of
                Hangs \<Rightarrow> Hangs
              | Returns q \<Rightarrow> report q
              | Throws e q \<Rightarrow> if \<not> isTestFailure e then Throws e q else report q))"

definition startedText :: "string \<Rightarrow> string" where
  "startedText date =
     ''> Test run started at '' @ date @ '' <'' @ [CHR 0x0D, CHR 0x0A, CHR 0x0D, CHR 0x0A]"

text \<open>\<open>launchTests\<close>: the thrown value of the session is caught; only a value other than
  the exit code 1 is written to the run as error text.  The closing of the stream in the
  \<open>finally\<close> block leaves the proxy as it is.\<close>

definition launchTests ::
  "run_env \<Rightarrow> TestKind \<Rightarrow> output_stream \<Rightarrow> process \<Rightarrow> TestRunProxy \<Rightarrow> outcome" where
  "launchTests env testKind out pr p =
     (let p1 = appendOutput (startedText (now env)) p;
          r = (case testKind of
                 coverage \<Rightarrow> runCoverageSession env out pr p1
               | parallel \<Rightarrow> runParallelSession env out pr p1
               | standard \<Rightarrow> of_session (runStandardSession out pr p1))
      in case r of
           Hangs \<Rightarrow> Hangs
         | Returns q \<Rightarrow> Returns q
         | Throws e q \<Rightarrow>
             if \<not> isTestFailure e then Returns (appendOutput (errorText (describe env) e) q)
             else Returns q)"

text \<open>The part of \<open>runSession\<close> for the streamed-event framework, inside the scope of
  the named pipe; a \<open>return\<close> there leaves the scope only.\<close>

definition runSession_swiftTesting :: "run_env \<Rightarrow> TestKind \<Rightarrow> TestRunProxy \<Rightarrow> outcome" where
  "runSession_swiftTesting env testKind p =
     (case mkfifo env of
        Never \<Rightarrow> Hangs
      | Rejects e \<Rightarrow> Throws e p
      | Settles _ \<Rightarrow>
          if \<not> swiftTestingConfig env then Returns p
          else if cancelledBeforeSwiftTesting env then Returns p
          else (case watchPipe env of
                  Never \<Rightarrow> Hangs
                | Rejects e \<Rightarrow> Throws e p
                | Settles _ \<Rightarrow>
                    launchTests env (if testKind = parallel then standard else testKind)
                      forwarding (swiftTestingProcess env) p))"

definition runSession_XCTest :: "run_env \<Rightarrow> TestKind \<Rightarrow> TestRunProxy \<Rightarrow> outcome" where
  "runSession_XCTest env testKind p =
     (if \<not> xcTestConfig env then Returns p
      else if cancelledBeforeXCTest env then Returns p
      else case testRunStarted p of
             (Some e, p1) \<Rightarrow> Throws e p1
           | (None, p1) \<Rightarrow> launchTests env testKind parsing (xcTestProcess env) p1)"

definition runSession :: "run_env \<Rightarrow> TestKind \<Rightarrow> TestRunProxy \<Rightarrow> outcome" where
  "runSession env testKind p =
     (case (if hasSwiftTestingTests env then runSession_swiftTesting env testKind p else Returns p) of
        Hangs \<Rightarrow> Hangs
      | Throws e q \<Rightarrow> Throws e q
      | Returns q \<Rightarrow> if hasXCTests env then runSession_XCTest env testKind q else Returns q)"

text \<open>
  \<open>debugSession\<close> is driven by the notifications of the debugger.  What reaches the test
  run during it is the output of the debug console, written as it is and parsed, and the
  events of the pipe; the session ends when the chain of debug runs settles.
\<close>

definition debugSession :: "run_env \<Rightarrow> TestRunProxy \<Rightarrow> outcome" where
  "debugSession env p =
     (let onOutput = (\<lambda>a q. case a of
                               Wrote output ops \<Rightarrow> fold apply_op ops (appendOutput output q)
                             | Piped ops \<Rightarrow> fold apply_op ops q);
          q = fold onOutput (debugActivity env) p
      in case debugEnding env of
           Never \<Rightarrow> Hangs
         | Rejects e \<Rightarrow> Throws e q
         | Settles _ \<Rightarrow> Returns q)"

text \<open>
  \<open>runHandler\<close>.  The \<open>try\<close> block either runs to its end, or throws, or leaves the
  handler by the \<open>return\<close> that follows a failed build.  The \<open>end()\<close> awaited after a
  failed build is inside the block, so what it throws is caught like any other error.
\<close>

datatype try_block = Completes TestRunProxy | Raises js_error TestRunProxy | Leaves TestRunProxy

definition of_outcome :: "outcome \<Rightarrow> try_block option" where
  "of_outcome r =
     (case r of Hangs \<Rightarrow> None | Returns q \<Rightarrow> Some (Completes q) | Throws e q \<Rightarrow> Some (Raises e q))"

definition runHandler_try :: "run_env \<Rightarrow> bool \<Rightarrow> TestKind \<Rightarrow> TestRunProxy \<Rightarrow> try_block option" where
  "runHandler_try env shouldDebug testKind p =
     (let session = (if shouldDebug then debugSession env p else runSession env testKind p)
      in if testKind \<noteq> coverage
         then (case buildTask env of
                 Never \<Rightarrow> None
               | Rejects e \<Rightarrow> Some (Raises e p)
               | Settles exitCode \<Rightarrow>
                   if exitCode = None \<or> exitCode \<noteq> Some 0
                   then (case end_proxy (computeCoverage env) p of
                           Hangs \<Rightarrow> None
                         | Throws e q \<Rightarrow> Some (Raises e q)
                         | Returns q \<Rightarrow> Some (Leaves q))
                   else of_outcome session)
         else of_outcome session)"

text \<open>After the block, the caught error is written to the run, and \<open>end()\<close> is awaited
  outside of any \<open>try\<close>: what it throws, the handler throws.\<close>

definition runHandler :: "run_env \<Rightarrow> bool \<Rightarrow> TestKind \<Rightarrow> TestRunProxy \<Rightarrow> outcome" where
  "runHandler env shouldDebug testKind p =
     (case runHandler_try env shouldDebug testKind p of
        None \<Rightarrow> Hangs
      | Some (Leaves q) \<Rightarrow> Returns q
      | Some (Completes q) \<Rightarrow> end_proxy (computeCoverage env) q
      | Some (Raises e q) \<Rightarrow>
          end_proxy (computeCoverage env) (appendOutput (errorText (describe env) e) q))"

text \<open>The text that the run has received or that waits for the run to be created.\<close>

fun output_of :: "run_call \<Rightarrow> string list" where
  "output_of (RunAppendOutput s) = [s]"
| "output_of _ = []"

definition run_output :: "TestRunProxy \<Rightarrow> string list" where
  "run_output p =
     (case testRun p of None \<Rightarrow> queuedOutput p | Some calls \<Rightarrow> concat (map output_of calls))"

text \<open>The calls that the run of the host has received; none when no run was created.\<close>

definition calls_of :: "TestRunProxy \<Rightarrow> run_call list" where
  "calls_of p = (case testRun p of None \<Rightarrow> [] | Some calls \<Rightarrow> calls)"

text \<open>No \<open>end()\<close> so far: neither on the proxy nor on the run of the host.\<close>

definition unended :: "TestRunProxy \<Rightarrow> bool" where
  "unended p = (endInvocations p = 0 \<and> RunEnd \<notin> set (calls_of p))"

fun unended_outcome :: "outcome \<Rightarrow> bool" where
  "unended_outcome (Returns q) = unended q"
| "unended_outcome (Throws e q) = unended q"
| "unended_outcome Hangs = True"

text \<open>
  The outcome of a handler that has invoked \<open>end()\<close> once.  It has returned, and the run of
  the host, if there is one, was ended by its last call and by no other; or it has thrown
  what the coverage collaborator \<open>cc\<close> has thrown when it was handed the run, and the run
  was not ended.
\<close>

fun ended_once :: "(run_call list \<Rightarrow> unit awaited) \<Rightarrow> outcome \<Rightarrow> bool" where
  "ended_once cc (Returns q) =
     (endInvocations q = 1
      \<and> count_list (calls_of q) RunEnd = (if testRun q = None then 0 else 1)
      \<and> (testRun q = None \<or> last (calls_of q) = RunEnd))"
| "ended_once cc (Throws e q) =
     (endInvocations q = 1
      \<and> (case testRun q of
            None \<Rightarrow> False
          | Some calls \<Rightarrow>
              calls \<noteq> [] \<and> last calls = RunComputeCoverage
              \<and> cc (butlast calls) = Rejects e \<and> RunEnd \<notin> set (butlast calls)))"
| "ended_once cc Hangs = True"

text \<open>An environment for the examples: the package has tests of the classic framework
  only, the process writes one chunk and ends as given, the coverage settles.\<close>

definition example_describe :: "js_error \<Rightarrow> string" where
  "example_describe e = (case e of ExitCode c \<Rightarrow> ''exit code'' | Error d \<Rightarrow> d | TypeError d \<Rightarrow> d)"

definition example_env :: "int option awaited \<Rightarrow> proc_end \<Rightarrow> run_env" where
  "example_env build ended =
     \<lparr> describe = example_describe, now = ''10:00'', buildTask = build,
       hasSwiftTestingTests = False, hasXCTests = True, mkfifo = Settles (),
       swiftTestingConfig = False, cancelledBeforeSwiftTesting = False, watchPipe = Settles (),
       swiftTestingProcess = \<lparr>activity = [], ending = Closes None\<rparr>,
       xcTestConfig = True, cancelledBeforeXCTest = False,
       xcTestProcess = \<lparr>activity = [Wrote ''ok'' [OpStarted (Some example_item)]], ending = ended\<rparr>,
       captureCoverage = Settles (), computeCoverage = (\<lambda>calls. Settles ()),
       readXUnitFile = Rejects (Error ''no report''),
       parseXUnit = (\<lambda>b. ([], None)), showNumber = (\<lambda>n. ''n''),
       debugActivity = [], debugEnding = Settles () \<rparr>"

section \<open>Discovery requests to the language server\<close>

text \<open>
  What the requests read of the language client: the result of the initialisation, whose
  capabilities may carry a table of experimental capabilities (a value of type \<open>any\<close>,
  possibly \<open>undefined\<close>), and the answers of the server to the two requests.  An entry of
  the table may carry a version.
\<close>

record capability =
  version :: "int option"

record server_capabilities =
  experimental :: "(string \<Rightarrow> capability option) option"

record LanguageClient =
  initializeResult :: "server_capabilities option"
  textDocumentTests :: "string \<Rightarrow> lsp_test_item list awaited"
  workspaceTests :: "lsp_test_item list awaited"

text \<open>The methods of the two requests, as the comments of the requests name them.\<close>

definition textDocumentTestsRequest_method :: string where
  "textDocumentTestsRequest_method = ''textDocument/tests''"

definition workspaceTestsRequest_method :: string where
  "workspaceTestsRequest_method = ''workspace/tests''"

text \<open>
  \<open>client.initializeResult?.capabilities.experimental[method]\<close>: without a result of the
  initialisation the chain is \<open>undefined\<close>; with one, the table is indexed, and indexing
  \<open>undefined\<close> raises the runtime's \<open>TypeError\<close>.
\<close>

definition testCapabilities :: "LanguageClient \<Rightarrow> string \<Rightarrow> js_error + capability option" where
  "testCapabilities client method =
     (case initializeResult client of
        None \<Rightarrow> Inr None
      | Some caps \<Rightarrow>
          (case experimental caps of
             None \<Rightarrow> Inl (TypeError ''Cannot read properties of undefined'')
           | Some table \<Rightarrow> Inr (table method)))"

text \<open>\<open>caps?.version >= 2\<close>: false when the entry or its version is \<open>undefined\<close>.\<close>

definition atLeastVersion2 :: "capability option \<Rightarrow> bool" where
  "atLeastVersion2 caps =
     (case caps of None \<Rightarrow> False | Some c \<Rightarrow> (case version c of None \<Rightarrow> False | Some v \<Rightarrow> v \<ge> 2))"

definition not_supported :: js_error where
  "not_supported = Error ''workspace/tests requests not supported''"

definition getDocumentTests ::
  "(string \<Rightarrow> Target option) \<Rightarrow> LanguageClient \<Rightarrow> SwiftPackage \<Rightarrow> string \<Rightarrow> test_class list awaited" where
  "getDocumentTests getTarget client pkg document =
     (case testCapabilities client textDocumentTestsRequest_method of
        Inl e \<Rightarrow> Rejects e
      | Inr workspaceTestCaps \<Rightarrow>
          if atLeastVersion2 workspaceTestCaps
          then (case textDocumentTests client document of
                  Settles testsInDocument \<Rightarrow> Settles (map (transform getTarget pkg) testsInDocument)
                | Rejects e \<Rightarrow> Rejects e
                | Never \<Rightarrow> Never)
          else Rejects not_supported)"

text \<open>\<open>isPathInsidePath\<close>: the relative path from the folder does not start with two
  dots.\<close>

definition isPathInsidePath :: "(string \<Rightarrow> string \<Rightarrow> string) \<Rightarrow> string \<Rightarrow> string \<Rightarrow> bool" where
  "isPathInsidePath prelative subfolder fld =
     (let relativePath = prelative fld subfolder
      in take 1 relativePath \<noteq> ''.'' \<or> take 1 (drop 1 relativePath) \<noteq> ''.'')"

definition getWorkspaceTests ::
  "(string \<Rightarrow> string \<Rightarrow> string) \<Rightarrow> (string \<Rightarrow> Target option) \<Rightarrow> LanguageClient \<Rightarrow> SwiftPackage
     \<Rightarrow> string \<Rightarrow> test_class list awaited" where
  "getWorkspaceTests prelative getTarget client pkg workspaceRoot =
     (case testCapabilities client workspaceTestsRequest_method of
        Inl e \<Rightarrow> Rejects e
      | Inr workspaceTestCaps \<Rightarrow>
          if atLeastVersion2 workspaceTestCaps
          then (case workspaceTests client of
                  Settles tests \<Rightarrow>
                    (let testsInWorkspace =
                           filter (\<lambda>item. isPathInsidePath prelative (fsPath (lsp_location item))
                                            workspaceRoot) tests
                     in Settles (map (transform getTarget pkg) testsInWorkspace))
                | Rejects e \<Rightarrow> Rejects e
                | Never \<Rightarrow> Never)
          else Rejects not_supported)"

text \<open>A server that answers both requests with no tests, with the capabilities given.\<close>

definition example_client :: "server_capabilities option \<Rightarrow> LanguageClient" where
  "example_client caps =
     \<lparr> initializeResult = caps, textDocumentTests = (\<lambda>document. Settles []),
       workspaceTests = Settles [] \<rparr>"

section \<open>The catalog of test items\<close>

text \<open>
  A \<open>vscode.TestItem\<close> of the controller with its children.  The items are objects that
  are updated in place; \<open>ti_oid\<close> is the identity of the object, given by the controller
  when \<open>createTestItem\<close> makes it.  The uri is the path of its file.  A
  \<open>TestItemCollection\<close> keeps its items by id in the order of their insertion; it is
  the list of the items.
\<close>

datatype test_item =
  TestItem (ti_oid: nat) (ti_id: string) (ti_label: string) (ti_uri: "string option")
    (ti_range: "(nat \<times> nat) option") (ti_tags: "string list") (ti_children: "test_item list")

record TestController =
  items :: "test_item list"
  nextItem :: nat

definition createTestItem :: "nat \<Rightarrow> string \<Rightarrow> string \<Rightarrow> string option \<Rightarrow> test_item" where
  "createTestItem oid ident lbl uri = TestItem oid ident lbl uri None [] []"

text \<open>\<open>collection.get(id)\<close>, and \<open>collection.add(item)\<close>: an item of the same id is
  replaced where it stands, a new id is appended.\<close>

definition get_item :: "test_item list \<Rightarrow> string \<Rightarrow> test_item option" where
  "get_item coll ident = find (\<lambda>it. ti_id it = ident) coll"

fun add_item :: "test_item \<Rightarrow> test_item list \<Rightarrow> test_item list" where
  "add_item x [] = [x]"
| "add_item x (y # ys) = (if ti_id y = ti_id x then x # ys else y # add_item x ys)"

text \<open>The ids of the siblings differ, at every level: what a collection keyed by id
  guarantees.\<close>

fun wf_item :: "test_item \<Rightarrow> bool" where
  "wf_item (TestItem oid i l u r tgs cs) = (distinct (map ti_id cs) \<and> list_all wf_item cs)"

definition wf_items :: "test_item list \<Rightarrow> bool" where
  "wf_items coll = (distinct (map ti_id coll) \<and> list_all wf_item coll)"

text \<open>
  \<open>createIncomingTestLookup\<close>: the map from the ids of the incoming items to the items.
  With a filter file, an item outside the file is left out together with its children.
\<close>

fun traverse :: "string option \<Rightarrow> test_class \<Rightarrow> (string \<Rightarrow> test_class option) \<Rightarrow> (string \<Rightarrow> test_class option)" where
  "traverse filterFile (TestClass i l d s loc tgs cs) dictionary =
     (if filterFile = None \<or> map_option fsPath loc = filterFile
      then fold (\<lambda>item dict. traverse filterFile item dict) cs
             (dictionary(i \<mapsto> TestClass i l d s loc tgs cs))
      else dictionary)"

definition createIncomingTestLookup ::
  "test_class list \<Rightarrow> string option \<Rightarrow> (string \<Rightarrow> test_class option)" where
  "createIncomingTestLookup collection filterFile =
     fold (traverse filterFile) collection Map.empty"

text \<open>
  \<open>removeOldTests\<close> first visits the children of the item and then, when the id of the
  item is not among the incoming ids and no filter file is given or the item lies in the
  filter file, deletes the item from the collection that holds it.  The result is \<open>None\<close>
  for an item that has deleted itself, and otherwise the item with the children that are
  left.
\<close>

fun removeOldTests ::
  "(string \<Rightarrow> test_class option) \<Rightarrow> string option \<Rightarrow> test_item \<Rightarrow> test_item option" where
  "removeOldTests incomingTestsLookup filterFile (TestItem oid i l u r tgs cs) =
     (let cs1 = List.map_filter (\<lambda>x. x) (map (removeOldTests incomingTestsLookup filterFile) cs)
      in if incomingTestsLookup i = None \<and> (filterFile = None \<or> u = filterFile)
         then None
         else Some (TestItem oid i l u r tgs cs1))"

text \<open>\<open>collection.forEach(removeOldTests)\<close>.\<close>

definition removeOldTests_each ::
  "(string \<Rightarrow> test_class option) \<Rightarrow> string option \<Rightarrow> test_item list \<Rightarrow> test_item list" where
  "removeOldTests_each incomingTestsLookup filterFile coll =
     List.map_filter (\<lambda>x. x) (map (removeOldTests incomingTestsLookup filterFile) coll)"

text \<open>\<open>tag.id.replace(/^\./, "")\<close>: a leading dot is dropped.\<close>

fun stripDot :: "string \<Rightarrow> string" where
  "stripDot [] = []"
| "stripDot (c # cs) = (if c = CHR ''.'' then cs else c # cs)"

text \<open>
  \<open>upsertTestItem\<close> on the collection of the parent (or of the controller), with the
  counter of the controller from which new items take their identity.  The item found or
  created is given the tags, the label and the range of the incoming item and added to
  the collection; then the children are upserted into it.  The collection holds the
  object itself, so it holds the item with these children in the end.
\<close>

fun upsertTestItem :: "test_class \<Rightarrow> nat \<times> test_item list \<Rightarrow> nat \<times> test_item list" where
  "upsertTestItem (TestClass i l d s loc tgs cs) (n, coll) =
     (if s = ''swift-testing'' then (n, coll)
      else
        (let created = (get_item coll i = None);
             newItem = (case get_item coll i of
                          Some it \<Rightarrow> it
                        | None \<Rightarrow> createTestItem n i l (map_option fsPath loc));
             tags = map stripDot tgs;
             kids = fold (\<lambda>child st. upsertTestItem child st) cs
                      (if created then Suc n else n, ti_children newItem)
         in (fst kids,
             add_item (TestItem (ti_oid newItem) (ti_id newItem) l (ti_uri newItem)
                         (map_option range loc) (s # tags) (snd kids)) coll)))"

text \<open>
  \<open>updateTests\<close>.  The lookup is made without the filter file.  Old items are removed
  unless the controller is empty, the incoming items are upserted at the top level, and
  every top-level item is added again to the collection of the controller.
\<close>

definition updateTests :: "TestController \<Rightarrow> test_class list \<Rightarrow> string option \<Rightarrow> TestController" where
  "updateTests testController incoming filterFile =
     (let incomingTestsLookup = createIncomingTestLookup incoming None;
          items1 = (if length (items testController) \<noteq> 0
                    then removeOldTests_each incomingTestsLookup filterFile (items testController)
                    else items testController);
          upserted = fold upsertTestItem incoming (nextItem testController, items1);
          items3 = fold add_item (snd upserted) (snd upserted)
      in testController\<lparr>items := items3, nextItem := fst upserted\<rparr>)"

text \<open>\<open>updateTestsFromClasses\<close>: nothing happens for a folder without test explorer;
  otherwise the incoming items are grouped under the test targets of the package.\<close>

definition updateTestsFromClasses ::
  "(string \<Rightarrow> Target option) \<Rightarrow> SwiftPackage \<Rightarrow> TestController option \<Rightarrow> test_class list
     \<Rightarrow> TestController option" where
  "updateTestsFromClasses getTarget pkg testExplorer incoming =
     (case testExplorer of
        None \<Rightarrow> None
      | Some testController \<Rightarrow>
          (let tgts = map (\<lambda>target.
                        TestClass (name target) (name target) False ''test-target'' None []
                          (filter (\<lambda>testItem. case tc_location testItem of
                                     None \<Rightarrow> False
                                   | Some loc \<Rightarrow> getTarget (fsPath loc) = Some target) incoming))
                      (getTargets pkg test)
           in Some (updateTests testController tgts None)))"

text \<open>The pruning phase of \<open>updateTests\<close> on its own.\<close>

definition pruned :: "TestController \<Rightarrow> test_class list \<Rightarrow> string option \<Rightarrow> test_item list" where
  "pruned testController incoming filterFile =
     (if length (items testController) \<noteq> 0
      then removeOldTests_each (createIncomingTestLookup incoming None) filterFile
             (items testController)
      else items testController)"

text \<open>
  The nodes of the catalog.  The properties of an item itself are its identity, id, label,
  uri, range and tags; a node is given by the properties of the items on the way from the
  top level down to it.
\<close>

type_synonym item_props = "nat \<times> string \<times> string \<times> string option \<times> (nat \<times> nat) option \<times> string list"

fun nodes_of :: "test_item \<Rightarrow> item_props list list" where
  "nodes_of (TestItem oid i l u r tgs cs) =
     [(oid, i, l, u, r, tgs)] # map ((#) (oid, i, l, u, r, tgs)) (concat (map nodes_of cs))"

definition nodes :: "test_item list \<Rightarrow> item_props list list" where
  "nodes coll = concat (map nodes_of coll)"

text \<open>The condition under which \<open>removeOldTests\<close> deletes an item, on its properties.\<close>

fun deleted :: "(string \<Rightarrow> test_class option) \<Rightarrow> string option \<Rightarrow> item_props \<Rightarrow> bool" where
  "deleted incomingTestsLookup filterFile (oid, i, l, u, r, tgs) =
     (incomingTestsLookup i = None \<and> (filterFile = None \<or> u = filterFile))"

text \<open>No item of the collection, at any level, carries the style tag of the
  streamed-event framework.\<close>

fun no_swift_testing :: "test_item \<Rightarrow> bool" where
  "no_swift_testing (TestItem oid i l u r tgs cs) =
     (take 1 tgs \<noteq> [''swift-testing''] \<and> list_all no_swift_testing cs)"

text \<open>All ids of an incoming item and of its descendants.\<close>

fun incoming_ids :: "test_class \<Rightarrow> string list" where
  "incoming_ids (TestClass i l d s loc tgs cs) = i # concat (map incoming_ids cs)"

text \<open>
  A catalog for the examples: the class \<open>CTests\<close> is declared in \<open>A.swift\<close> and has a test
  there and a test in an extension in \<open>B.swift\<close>.  The incoming items are what \<open>A.swift\<close>
  holds after the class was renamed to \<open>DTests\<close>, and a suite of the streamed-event
  framework.
\<close>

definition example_controller :: TestController where
  "example_controller =
     \<lparr> items =
         [TestItem 0 ''PackageTests.CTests'' ''CTests'' (Some ''/pkg/Tests/A.swift'') (Some (3, 9))
            [''XCTest'']
            [TestItem 1 ''PackageTests.CTests/testA'' ''testA'' (Some ''/pkg/Tests/A.swift'')
               (Some (4, 6)) [''XCTest''] [],
             TestItem 2 ''PackageTests.CTests/testB'' ''testB'' (Some ''/pkg/Tests/B.swift'')
               (Some (2, 5)) [''XCTest''] []]],
       nextItem = 3 \<rparr>"

definition example_incoming :: "test_class list" where
  "example_incoming =
     [TestClass ''PackageTests.DTests'' ''DTests'' False ''XCTest''
        (Some \<lparr>fsPath = ''/pkg/Tests/A.swift'', range = (3, 9)\<rparr>) [''.fast'']
        [TestClass ''PackageTests.DTests/testA'' ''testA'' False ''XCTest''
           (Some \<lparr>fsPath = ''/pkg/Tests/A.swift'', range = (4, 6)\<rparr>) [] []],
      TestClass ''Suite'' ''Suite'' False ''swift-testing''
        (Some \<lparr>fsPath = ''/pkg/Tests/A.swift'', range = (11, 20)\<rparr>) []
        [TestClass ''Suite/check()'' ''check()'' False ''swift-testing''
           (Some \<lparr>fsPath = ''/pkg/Tests/A.swift'', range = (12, 14)\<rparr>) [] []]]"

text \<open>The node of \<open>testB\<close>, which lies in \<open>B.swift\<close>, below the class declared in
  \<open>A.swift\<close>.\<close>

definition example_node_B :: "item_props list" where
  "example_node_B =
     [(0, ''PackageTests.CTests'', ''CTests'', Some ''/pkg/Tests/A.swift'', Some (3, 9), [''XCTest'']),
      (2, ''PackageTests.CTests/testB'', ''testB'', Some ''/pkg/Tests/B.swift'', Some (2, 5),
       [''XCTest''])]"

text \<open>
  Notions for the reconciliation of a snapshot.  An incoming item is upserted unless it
  has the style of the streamed-event framework.  Among incoming siblings, the items that
  are upserted under one id all reach the same item of the catalog: the last of them
  decides its label, range and tags, and the children of all of them are upserted into
  it, in their order.
\<close>

definition upserted_as :: "string \<Rightarrow> test_class list \<Rightarrow> test_class list" where
  "upserted_as k tcs = filter (\<lambda>u. tc_style u \<noteq> ''swift-testing'' \<and> tc_id u = k) tcs"

definition children_under :: "string \<Rightarrow> test_class list \<Rightarrow> test_class list" where
  "children_under k tcs = concat (map tc_children (upserted_as k tcs))"

text \<open>Every incoming item that is upserted finds its item in the collection, at every
  level.\<close>

fun present :: "test_class \<Rightarrow> test_item list \<Rightarrow> bool" where
  "present (TestClass i l d s loc tgs cs) coll =
     (s = ''swift-testing''
      \<or> (case get_item coll i of
            None \<Rightarrow> False
          | Some it \<Rightarrow> list_all (\<lambda>c. present c (ti_children it)) cs))"

text \<open>The item carries the label, range and tags that the upsert of the incoming item
  gives it.\<close>

definition carries :: "test_class \<Rightarrow> test_item \<Rightarrow> bool" where
  "carries tc it =
     (ti_label it = tc_label tc \<and> ti_range it = map_option range (tc_location tc)
      \<and> ti_tags it = tc_style tc # map stripDot (tc_tags tc))"

text \<open>The update of an item that exists by an incoming item, when nothing is created
  below it.\<close>

definition updated_by :: "test_class \<Rightarrow> test_item \<Rightarrow> test_item" where
  "updated_by tc it =
     TestItem (ti_oid it) (ti_id it) (tc_label tc) (ti_uri it) (map_option range (tc_location tc))
       (tc_style tc # map stripDot (tc_tags tc))
       (snd (fold upsertTestItem (tc_children tc) (0, ti_children it)))"

text \<open>No item of the tree meets the condition under which \<open>removeOldTests\<close> deletes.\<close>

fun kept :: "(string \<Rightarrow> test_class option) \<Rightarrow> string option \<Rightarrow> test_item \<Rightarrow> bool" where
  "kept incomingTestsLookup filterFile (TestItem oid i l u r tgs cs) =
     (\<not> (incomingTestsLookup i = None \<and> (filterFile = None \<or> u = filterFile))
      \<and> list_all (kept incomingTestsLookup filterFile) cs)"

text \<open>
  The collection is reconciled with a list of incoming siblings: every incoming item that
  is upserted has its item, which carries what the last incoming item of that id gives
  it, and whose children are reconciled with the children of all incoming items of that
  id.
\<close>

inductive reconciled :: "test_class list \<Rightarrow> test_item list \<Rightarrow> bool" where
  "(\<And>t. t \<in> set tcs \<Longrightarrow> tc_style t \<noteq> ''swift-testing'' \<Longrightarrow>
        (\<exists>it. get_item coll (tc_id t) = Some it
              \<and> carries (last (upserted_as (tc_id t) tcs)) it
              \<and> reconciled (children_under (tc_id t) tcs) (ti_children it)))
   \<Longrightarrow> reconciled tcs coll"

section \<open>Durations and start times of completed tests\<close>

lemma round_half_even_bound: "\<bar>of_int (round_half_even x) - x\<bar> \<le> 1 / 2"
  unfolding round_half_even_def Let_def by (auto simp: abs_le_iff; linarith)

text \<open>The double nearest to a real of magnitude from \<open>2 ^ (52 - k)\<close> up to
  \<open>2 ^ (53 - k)\<close> is the nearest multiple of \<open>1 / 2 ^ k\<close>.\<close>

lemma binary64_scaled:
  fixes k :: nat
  assumes lo: "2 ^ 52 \<le> \<bar>x\<bar> * 2 ^ k" and hi: "\<bar>x\<bar> * 2 ^ k < 2 ^ 53" and k: "k \<le> 1074"
  shows "binary64 x = Finite (of_int (round_half_even (x * 2 ^ k)) / 2 ^ k)"
proof -
  have x0: "x \<noteq> 0" using lo by auto
  have pos: "0 < \<bar>x\<bar>" using x0 by simp
  have p1: "(2::real) powr (52 - real k) = 2 ^ 52 / 2 ^ k"
    by (simp add: powr_diff powr_realpow)
  have p2: "(2::real) powr (53 - real k) = 2 ^ 53 / 2 ^ k"
    by (simp add: powr_diff powr_realpow)
  have "\<lfloor>log 2 \<bar>x\<bar>\<rfloor> = 52 - int k"
    using lo hi
    by (subst floor_log_eq_powr_iff [OF pos])
      (simp_all add: p1 p2 pos_divide_le_eq pos_less_divide_eq)
  then have e: "max \<lfloor>log 2 \<bar>x\<bar>\<rfloor> (- 1022) - 52 = - int k" using k by simp
  have pk: "(2::real) powr (- real k) = 1 / 2 ^ k"
    by (simp add: powr_minus powr_realpow field_simps)
  let ?m = "round_half_even (x * 2 ^ k)"
  have "\<bar>of_int ?m - x * 2 ^ k\<bar> \<le> 1 / 2" by (rule round_half_even_bound)
  then have "\<bar>of_int ?m :: real\<bar> \<le> \<bar>x * 2 ^ k\<bar> + 1 / 2" by linarith
  also have "\<dots> < 2 ^ 53 + 1" using hi by (simp add: abs_mult)
  finally have m: "\<bar>of_int ?m :: real\<bar> < 2 ^ 53 + 1" .
  have "\<bar>of_int ?m / 2 ^ k :: real\<bar> \<le> \<bar>of_int ?m\<bar>"
    by (simp add: abs_divide divide_le_eq)
      (metis abs_ge_zero mult_left_mono mult.right_neutral one_le_numeral one_le_power)
  also have "\<dots> < 2 ^ 1024" using m by simp
  finally have fin: "\<not> 2 ^ 1024 \<le> \<bar>of_int ?m / 2 ^ k :: real\<bar>" by simp
  show ?thesis
    using x0 fin by (simp add: binary64_def e pk Let_def)
qed

text \<open>The numbers of the example: the literals \<open>10.0\<close>, \<open>10.006\<close> and \<open>0.006\<close>, the
  difference of the two timestamps, which is exact but is not the double of \<open>0.006\<close>, and
  the two durations.\<close>

lemma binary64_10: "binary64 10.0 = Finite 10"
  by (subst binary64_scaled [where k = 49]) (simp_all add: round_half_even_def Let_def)

lemma binary64_10_006: "binary64 10.006 = Finite (5632877233933648 / 2 ^ 49)"
  by (subst binary64_scaled [where k = 49]) (simp_all add: round_half_even_def Let_def)

lemma binary64_0_006: "binary64 0.006 = Finite (6917529027641082 / 2 ^ 60)"
  by (subst binary64_scaled [where k = 60]) (simp_all add: round_half_even_def Let_def)

lemma example_difference:
  "number_minus (binary64 10.006) (binary64 10.0) = Finite (3377699720528 / 2 ^ 49)"
  unfolding binary64_10_006 binary64_10 number_minus.simps
  by (subst binary64_scaled [where k = 60]) (simp_all add: round_half_even_def Let_def)

lemma example_duration_timestamp:
  "number_times (number_minus (binary64 10.006) (binary64 10.0)) (Finite 1000)
     = Finite (6 + 1 / 2 ^ 42)"
  unfolding example_difference number_times.simps
  by (subst binary64_scaled [where k = 50]) (simp_all add: round_half_even_def Let_def)

lemma example_duration_explicit: "number_times (binary64 0.006) (Finite 1000) = Finite 6"
  unfolding binary64_0_006 number_times.simps
  by (subst binary64_scaled [where k = 50]) (simp_all add: round_half_even_def Let_def)

lemma getStartTime_example: "getStartTime example_started 0 = Some (binary64 10.0)"
  by (simp add: example_started_def started_def getStartTime_def Let_def)

lemma example_started_run:
  "testItems (rs_testRun example_started) = [example_item]
   \<and> testRun (rs_testRun example_started)
       = Some [RunEnqueued (Some example_item), RunStarted (Some example_item)]
   \<and> issues example_started 0 = None"
  by (simp add: example_started_def started_def Let_def testRunStarted_def new_TestRunProxy_def
      new_TestRunnerTestRunState_def started_proxy_def onRun_def itemAt_def)

text \<open>What the run of the host is told by a completion with the given duration.\<close>

lemma completed_calls:
  assumes "completed_duration tm (getStartTime st index) = Inr d"
  shows "\<exists>st'. completed index tm st = Inr st'
           \<and> calls_of (rs_testRun st')
               = (if testRun (rs_testRun st) = None then []
                  else calls_of (rs_testRun st)
                       @ [case issues st index of
                            None \<Rightarrow> RunPassed (itemAt (testItems (rs_testRun st)) index) (Some d)
                          | Some iss \<Rightarrow>
                              if iss = []
                              then RunPassed (itemAt (testItems (rs_testRun st)) index) (Some d)
                              else RunFailed (itemAt (testItems (rs_testRun st)) index) iss (Some d)])"
  using assms
  by (auto simp: completed_def Let_def calls_of_def passed_proxy_def failed_proxy_def onRun_def
      split: option.splits)

text \<open>
  Claim C2, as the code has it.  When the start of the test was recorded with timestamp
  \<open>tstart\<close>, a completion in timestamp form is the completion in explicit-duration form at
  the difference of the two timestamps as the arithmetic of doubles gives it, so the same
  scaling by 1000 applies to both: the run of the host is told that the test has passed,
  or has failed with the issues recorded for it, with the duration
  \<open>(timestamp - tstart) * 1000\<close>, each of the two operations rounded to a double.  A
  completion in explicit-duration form tells the run the duration times 1000.
\<close>

theorem C2_timestamp_duration:
  assumes "getStartTime st index = Some tstart"
  shows "completed index (Timestamp ts) st = completed index (Duration (number_minus ts tstart)) st
       \<and> (\<exists>st'. completed index (Timestamp ts) st = Inr st'
             \<and> calls_of (rs_testRun st')
                 = (if testRun (rs_testRun st) = None then []
                    else calls_of (rs_testRun st)
                         @ [case issues st index of
                              None \<Rightarrow>
                                RunPassed (itemAt (testItems (rs_testRun st)) index)
                                  (Some (number_times (number_minus ts tstart) (Finite 1000)))
                            | Some iss \<Rightarrow>
                                if iss = []
                                then RunPassed (itemAt (testItems (rs_testRun st)) index)
                                       (Some (number_times (number_minus ts tstart) (Finite 1000)))
                                else RunFailed (itemAt (testItems (rs_testRun st)) index) iss
                                       (Some (number_times (number_minus ts tstart) (Finite 1000)))]))
       \<and> (\<exists>st'. completed index (Duration d) st = Inr st'
             \<and> calls_of (rs_testRun st')
                 = (if testRun (rs_testRun st) = None then []
                    else calls_of (rs_testRun st)
                         @ [case issues st index of
                              None \<Rightarrow>
                                RunPassed (itemAt (testItems (rs_testRun st)) index)
                                  (Some (number_times d (Finite 1000)))
                            | Some iss \<Rightarrow>
                                if iss = []
                                then RunPassed (itemAt (testItems (rs_testRun st)) index)
                                       (Some (number_times d (Finite 1000)))
                                else RunFailed (itemAt (testItems (rs_testRun st)) index) iss
                                       (Some (number_times d (Finite 1000)))]))"
proof -
  have d: "completed_duration (Timestamp ts) (getStartTime st index)
      = Inr (number_times (number_minus ts tstart) (Finite 1000))"
    using assms by simp
  have same: "completed index (Timestamp ts) st
      = completed index (Duration (number_minus ts tstart)) st"
    using assms by (simp add: completed_def)
  have x: "completed_duration (Duration d) (getStartTime st index)
      = Inr (number_times d (Finite 1000))"
    by simp
  show ?thesis
    using same completed_calls [OF d] completed_calls [OF x] by blast
qed

text \<open>The instance of the specification: start at 10.0, completion at 10.006.  The run is
  told that the test has passed, with the duration \<open>6 + 1 / 2 ^ 42\<close>
  (6.000000000000227...).\<close>

theorem C2_timestamp_duration_witness:
  "getStartTime example_started 0 = Some (binary64 10.0)
   \<and> completed 0 (Timestamp (binary64 10.006)) example_started
       = completed 0 (Duration (number_minus (binary64 10.006) (binary64 10.0))) example_started
   \<and> (\<exists>st'. completed 0 (Timestamp (binary64 10.006)) example_started = Inr st'
         \<and> calls_of (rs_testRun st')
             = [RunEnqueued (Some example_item), RunStarted (Some example_item),
                RunPassed (Some example_item) (Some (Finite (6 + 1 / 2 ^ 42)))])"
proof -
  note T = C2_timestamp_duration [where st = example_started and index = 0
      and tstart = "binary64 10.0" and ts = "binary64 10.006", OF getStartTime_example]
  have same: "completed 0 (Timestamp (binary64 10.006)) example_started
      = completed 0 (Duration (number_minus (binary64 10.006) (binary64 10.0))) example_started"
    using T by (rule conjunct1)
  from conjunct1 [OF conjunct2 [OF T]] obtain st' where
    r: "completed 0 (Timestamp (binary64 10.006)) example_started = Inr st'"
    and c: "calls_of (rs_testRun st')
        = (if testRun (rs_testRun example_started) = None then []
           else calls_of (rs_testRun example_started)
                @ [case issues example_started 0 of
                     None \<Rightarrow>
                       RunPassed (itemAt (testItems (rs_testRun example_started)) 0)
                         (Some (number_times (number_minus (binary64 10.006) (binary64 10.0))
                                  (Finite 1000)))
                   | Some iss \<Rightarrow>
                       if iss = []
                       then RunPassed (itemAt (testItems (rs_testRun example_started)) 0)
                              (Some (number_times (number_minus (binary64 10.006) (binary64 10.0))
                                       (Finite 1000)))
                       else RunFailed (itemAt (testItems (rs_testRun example_started)) 0) iss
                              (Some (number_times (number_minus (binary64 10.006) (binary64 10.0))
                                       (Finite 1000)))])"
    by blast
  have calls: "calls_of (rs_testRun st')
      = [RunEnqueued (Some example_item), RunStarted (Some example_item),
         RunPassed (Some example_item) (Some (Finite (6 + 1 / 2 ^ 42)))]"
    using c unfolding example_duration_timestamp
    by (simp add: example_started_run calls_of_def itemAt_def)
  show ?thesis
    using getStartTime_example same r calls by blast
qed

text \<open>
  The instance as the claim has it: the duration for the start at 10.0 and the completion
  at 10.006 is not the duration that the explicit form computes for 0.006 seconds, which
  is 6, and the two completions tell the run different durations.
\<close>

theorem C2_timestamp_duration_counterexample:
  "completed_duration (Timestamp (binary64 10.006)) (getStartTime example_started 0)
     = Inr (Finite (6 + 1 / 2 ^ 42))
   \<and> completed_duration (Duration (binary64 0.006)) (getStartTime example_started 0)
     = Inr (Finite 6)
   \<and> Finite (6 + 1 / 2 ^ 42) \<noteq> Finite 6
   \<and> completed 0 (Timestamp (binary64 10.006)) example_started
     \<noteq> completed 0 (Duration (binary64 0.006)) example_started"
proof -
  have a: "completed_duration (Timestamp (binary64 10.006)) (getStartTime example_started 0)
      = Inr (Finite (6 + 1 / 2 ^ 42))"
    unfolding getStartTime_example completed_duration.simps example_duration_timestamp
    by (rule refl)
  have b: "completed_duration (Duration (binary64 0.006)) (getStartTime example_started 0)
      = Inr (Finite 6)"
    unfolding getStartTime_example completed_duration.simps example_duration_explicit
    by (rule refl)
  have c: "Finite (6 + 1 / 2 ^ 42) \<noteq> Finite 6"
    by simp
  from completed_calls [OF a] obtain s1 where
    s1: "completed 0 (Timestamp (binary64 10.006)) example_started = Inr s1"
    and c1: "last (calls_of (rs_testRun s1))
        = RunPassed (Some example_item) (Some (Finite (6 + 1 / 2 ^ 42)))"
    by (auto simp: example_started_run calls_of_def itemAt_def)
  from completed_calls [OF b] obtain s2 where
    s2: "completed 0 (Duration (binary64 0.006)) example_started = Inr s2"
    and c2: "last (calls_of (rs_testRun s2)) = RunPassed (Some example_item) (Some (Finite 6))"
    by (auto simp: example_started_run calls_of_def itemAt_def)
  have "s1 \<noteq> s2" using c1 c2 c by auto
  then have d: "completed 0 (Timestamp (binary64 10.006)) example_started
      \<noteq> completed 0 (Duration (binary64 0.006)) example_started"
    using s1 s2 by simp
  show ?thesis using a b c d by blast
qed

text \<open>
  Claim C9.  A completion in timestamp form for an index without a recorded start time
  is raised as an error; a completion in explicit-duration form never needs a start time
  and always returns a state.
\<close>

theorem C9_timestamp_without_start:
  assumes "getStartTime st index = None"
  shows "completed index (Timestamp ts) st = Inl (Error timestamp_error)
       \<and> (\<forall>i d s. \<exists>s'. completed i (Duration d) s = Inr s')"
  using assms by (simp add: completed_def Let_def)

lemma getStartTime_new: "getStartTime (new_TestRunnerTestRunState p) i = None"
  by (simp add: getStartTime_def new_TestRunnerTestRunState_def)

theorem C9_timestamp_without_start_witness:
  "getStartTime (new_TestRunnerTestRunState (new_TestRunProxy [example_item])) 0 = None
   \<and> completed 0 (Timestamp (binary64 10.006))
         (new_TestRunnerTestRunState (new_TestRunProxy [example_item]))
       = Inl (Error timestamp_error)
   \<and> (\<exists>s'. completed 0 (Duration (binary64 0.006))
         (new_TestRunnerTestRunState (new_TestRunProxy [example_item]))
       = Inr s')"
  using C9_timestamp_without_start
      [where st = "new_TestRunnerTestRunState (new_TestRunProxy [example_item])" and index = 0
         and ts = "binary64 10.006", OF getStartTime_new]
  by (simp add: getStartTime_new)

section \<open>Ids of discovered tests\<close>

text \<open>
  Claim C7.  For an item of style \<open>XCTest\<close> whose id ends in \<open>()\<close> and whose file lies in
  a test target of the package, the transformed id is the name of that target, a dot, and
  the id without the trailing parentheses; an item of any other style keeps its id.
\<close>

theorem C7_transformId:
  "(lsp_style item = ''XCTest'' \<and> lsp_id item = base @ ''()''
      \<and> getTarget (fsPath loc) = Some tg \<and> tg \<in> set (getTargets pkg test)
    \<longrightarrow> transformId getTarget item loc pkg = name tg @ ''.'' @ base)
   \<and> (lsp_style item \<noteq> ''XCTest'' \<longrightarrow> transformId getTarget item loc pkg = lsp_id item)"
proof -
  have strip: "stripParens (base @ ''()'') = base"
    by (simp add: stripParens_def suffix_def)
  have found: "find (\<lambda>target. getTarget (fsPath loc) = Some target) (getTargets pkg test) = Some tg"
    if g: "getTarget (fsPath loc) = Some tg" and m: "tg \<in> set (getTargets pkg test)"
  proof -
    have "find ((=) tg) ts = Some tg" if "tg \<in> set ts" for ts
      using that by (induction ts) auto
    then show ?thesis using g m by simp
  qed
  show ?thesis
    using found by (auto simp: transformId_def strip)
qed

theorem C7_transformId_witness:
  "lsp_style example_lsp_item = ''XCTest''
   \<and> lsp_id example_lsp_item = ''PassingXCTestSuite/testPassing'' @ ''()''
   \<and> example_getTarget (fsPath (lsp_location example_lsp_item)) = Some example_target
   \<and> example_target \<in> set (getTargets example_package test)
   \<and> transformId example_getTarget example_lsp_item (lsp_location example_lsp_item) example_package
       = ''PackageTests.PassingXCTestSuite/testPassing''"
  using C7_transformId [where item = example_lsp_item and base = "''PassingXCTestSuite/testPassing''"
      and getTarget = example_getTarget and loc = "lsp_location example_lsp_item"
      and tg = example_target and pkg = example_package]
  by (simp add: example_lsp_item_def example_getTarget_def example_target_def
      example_package_def getTargets_def)

section \<open>Resolution of reported ids on the platforms without qualified ids\<close>

lemma findIndex_none: "(findIndex P xs = - 1) = (\<forall>x \<in> set xs. \<not> P x)"
proof (induction xs)
  case Nil
  show ?case by simp
next
  case (Cons x xs)
  have nonneg: "- 1 \<le> findIndex P ys" for ys
    by (induction ys) (auto simp: Let_def)
  show ?case using Cons nonneg [of xs] by (auto simp: Let_def)
qed

lemma findIndex_first: "\<exists>x \<in> set xs. P x \<Longrightarrow> first_index P xs (findIndex P xs)"
proof (induction xs)
  case Nil
  then show ?case by simp
next
  case (Cons x xs)
  show ?case
  proof (cases "P x")
    case True
    then show ?thesis by (simp add: first_index_def)
  next
    case False
    with Cons.prems have ex: "\<exists>y \<in> set xs. P y" by auto
    then have ne: "findIndex P xs \<noteq> - 1" by (simp add: findIndex_none)
    from Cons.IH [OF ex] have fi: "first_index P xs (findIndex P xs)" .
    then have i0: "0 \<le> findIndex P xs" by (simp add: first_index_def)
    have nat_eq: "nat (findIndex P xs + 1) = Suc (nat (findIndex P xs))"
      using i0 by simp
    have "\<not> P ((x # xs) ! j)" if "j < Suc (nat (findIndex P xs))" for j
      using that fi False by (cases j) (auto simp: first_index_def)
    then show ?thesis
      using False ne fi i0 by (simp add: first_index_def Let_def nat_eq)
  qed
qed

text \<open>The check of \<open>isTestWithFilenameInTarget\<close>, spelled out: the id of the item ends
  with the reported id, the item has a parent and a grandparent, the first target of the
  package whose name is the label of the grandparent exists, and the file, taken relative
  to the folder of that target, is one of its sources.\<close>

lemma isTestWithFilenameInTarget_iff:
  "isTestWithFilenameInTarget pjoin prelative ctx ident f item
   = (suffix ident (item_id item)
      \<and> (\<exists>parent targetTestItem target.
            item_parent item = Some parent \<and> item_parent parent = Some targetTestItem
            \<and> find (\<lambda>t. item_label targetTestItem = name t) (targets (swiftPackage ctx))
                = Some target
            \<and> prelative (pjoin (folder ctx) (path target)) f \<in> set (sources target)))"
proof -
  have mem1: "find (\<lambda>source. source = r) srcs = Some y \<Longrightarrow> r \<in> set srcs"
    for r y :: string and srcs
    by (induction srcs) (auto split: if_splits)
  have mem2: "r \<in> set srcs \<Longrightarrow> \<exists>y. find (\<lambda>source. source = r) srcs = Some y"
    for r :: string and srcs
    by (induction srcs) auto
  show ?thesis
    by (cases "item_parent item")
      (auto simp: isTestWithFilenameInTarget_def Let_def split: option.splits
        dest: mem1 intro: mem2)
qed

text \<open>
  Claim C8.  With a file name hint that is not empty, when some item has an id that ends
  with the reported id and belongs to a target that holds the hinted file, the result is
  the index of the first such item.  The target of an item is the target of the package
  that is named by the label of the grandparent of the item; it holds the file when the
  path of the file relative to the folder of the target is among its sources.  Without a
  hint, with the empty hint, or when no item passes that check, the result is the index of
  the first item whose id ends with the reported id.  The result is \<open>-1\<close> exactly when no
  id ends with the reported id.
\<close>

theorem C8_getIndex_NonDarwin:
  "let inTarget = (\<lambda>f item.
         suffix ident (item_id item)
         \<and> (\<exists>parent targetTestItem target.
               item_parent item = Some parent \<and> item_parent parent = Some targetTestItem
               \<and> find (\<lambda>t. item_label targetTestItem = name t) (targets (swiftPackage ctx))
                   = Some target
               \<and> prelative (pjoin (folder ctx) (path target)) f \<in> set (sources target)))
   in (hint \<noteq> [] \<and> (\<exists>item \<in> set its. inTarget hint item)
        \<longrightarrow> first_index (inTarget hint) its
              (getIndex_NonDarwin pjoin prelative ctx its ident (Some hint)))
      \<and> ((filename = None \<or> filename = Some []
           \<or> (\<exists>g. filename = Some g \<and> \<not> (\<exists>item \<in> set its. inTarget g item)))
          \<and> (\<exists>item \<in> set its. suffix ident (item_id item))
        \<longrightarrow> first_index (\<lambda>item. suffix ident (item_id item)) its
              (getIndex_NonDarwin pjoin prelative ctx its ident filename))
      \<and> ((getIndex_NonDarwin pjoin prelative ctx its ident filename = - 1)
          = (\<not> (\<exists>item \<in> set its. suffix ident (item_id item))))"
proof -
  let ?C = "isTestWithFilenameInTarget pjoin prelative ctx ident"
  let ?S = "\<lambda>item. suffix ident (item_id item)"
  have CS: "?C g item \<Longrightarrow> ?S item" for g item
    by (simp add: isTestWithFilenameInTarget_iff)
  have a: "first_index (?C hint) its (getIndex_NonDarwin pjoin prelative ctx its ident (Some hint))"
    if "hint \<noteq> []" and ex: "\<exists>item \<in> set its. ?C hint item"
  proof -
    from ex have "findIndex (?C hint) its \<noteq> - 1" by (simp add: findIndex_none)
    then show ?thesis
      using that findIndex_first [OF ex]
      by (simp add: getIndex_NonDarwin_def truthy_def Let_def)
  qed
  have fallback: "getIndex_NonDarwin pjoin prelative ctx its ident filename = findIndex ?S its"
    if "filename = None \<or> filename = Some []
        \<or> (\<exists>g. filename = Some g \<and> \<not> (\<exists>item \<in> set its. ?C g item))"
    using that by (auto simp: getIndex_NonDarwin_def truthy_def Let_def findIndex_none)
  have b: "first_index ?S its (getIndex_NonDarwin pjoin prelative ctx its ident filename)"
    if "filename = None \<or> filename = Some []
        \<or> (\<exists>g. filename = Some g \<and> \<not> (\<exists>item \<in> set its. ?C g item))"
      and ex: "\<exists>item \<in> set its. ?S item"
    using fallback [OF that(1)] findIndex_first [OF ex] by simp
  have c: "(getIndex_NonDarwin pjoin prelative ctx its ident filename = - 1)
           = (\<not> (\<exists>item \<in> set its. ?S item))"
  proof (cases "\<exists>g. filename = Some g \<and> g \<noteq> [] \<and> (\<exists>item \<in> set its. ?C g item)")
    case True
    then obtain g where g: "filename = Some g" "g \<noteq> []" "\<exists>item \<in> set its. ?C g item"
      by blast
    from g(3) have "findIndex (?C g) its \<noteq> - 1" by (simp add: findIndex_none)
    then have "getIndex_NonDarwin pjoin prelative ctx its ident filename \<noteq> - 1"
      using g by (simp add: getIndex_NonDarwin_def truthy_def Let_def)
    moreover have "\<exists>item \<in> set its. ?S item" using g(3) CS by blast
    ultimately show ?thesis by simp
  next
    case False
    then have "filename = None \<or> filename = Some []
        \<or> (\<exists>g. filename = Some g \<and> \<not> (\<exists>item \<in> set its. ?C g item))"
      by (cases filename) auto
    then have "getIndex_NonDarwin pjoin prelative ctx its ident filename = findIndex ?S its"
      by (rule fallback)
    then show ?thesis by (simp add: findIndex_none)
  qed
  show ?thesis
    unfolding Let_def isTestWithFilenameInTarget_iff [symmetric]
    using a b c by blast
qed

text \<open>Two targets hold a test \<open>Suite/testA\<close>.  The hint of a file of the second target
  selects index 1; without the hint, and with the empty hint, the first suffix match,
  index 0, is returned; an unknown id gives \<open>-1\<close>.\<close>

lemma example_getIndex:
  "getIndex_NonDarwin example_join example_relative example_folder example_run_items
     ''Suite/testA'' (Some ''/pkg/Tests/PackageTests/PackageTests.swift'') = 1
   \<and> getIndex_NonDarwin example_join example_relative example_folder example_run_items
     ''Suite/testA'' None = 0
   \<and> getIndex_NonDarwin example_join example_relative example_folder example_run_items
     ''Suite/testA'' (Some '''') = 0
   \<and> getIndex_NonDarwin example_join example_relative example_folder example_run_items
     ''Suite/testZ'' (Some ''/pkg/Tests/PackageTests/PackageTests.swift'') = - 1"
  by (simp add: getIndex_NonDarwin_def truthy_def isTestWithFilenameInTarget_def
      example_run_items_def example_folder_def example_package_def example_target_def
      example_join_def example_relative_def suffix_def Let_def)

theorem C8_getIndex_NonDarwin_witness:
  "''/pkg/Tests/PackageTests/PackageTests.swift'' \<noteq> []
   \<and> suffix ''Suite/testA'' (item_id (example_run_items ! 0))
   \<and> suffix ''Suite/testA'' (item_id (example_run_items ! 1))
   \<and> (\<exists>parent targetTestItem.
         item_parent (example_run_items ! 1) = Some parent
         \<and> item_parent parent = Some targetTestItem
         \<and> find (\<lambda>t. item_label targetTestItem = name t) (targets (swiftPackage example_folder))
             = Some example_target
         \<and> example_relative (example_join (folder example_folder) (path example_target))
               ''/pkg/Tests/PackageTests/PackageTests.swift''
             \<in> set (sources example_target))
   \<and> getIndex_NonDarwin example_join example_relative example_folder example_run_items
        ''Suite/testA'' (Some ''/pkg/Tests/PackageTests/PackageTests.swift'') = 1
   \<and> first_index (\<lambda>item.
          suffix ''Suite/testA'' (item_id item)
          \<and> (\<exists>parent targetTestItem target.
                item_parent item = Some parent \<and> item_parent parent = Some targetTestItem
                \<and> find (\<lambda>t. item_label targetTestItem = name t)
                      (targets (swiftPackage example_folder)) = Some target
                \<and> example_relative (example_join (folder example_folder) (path target))
                      ''/pkg/Tests/PackageTests/PackageTests.swift''
                    \<in> set (sources target)))
        example_run_items 1
   \<and> getIndex_NonDarwin example_join example_relative example_folder example_run_items
        ''Suite/testA'' None = 0
   \<and> first_index (\<lambda>item. suffix ''Suite/testA'' (item_id item)) example_run_items 0
   \<and> getIndex_NonDarwin example_join example_relative example_folder example_run_items
        ''Suite/testZ'' (Some ''/pkg/Tests/PackageTests/PackageTests.swift'') = - 1
   \<and> \<not> (\<exists>item \<in> set example_run_items. suffix ''Suite/testZ'' (item_id item))"
proof -
  let ?file = "''/pkg/Tests/PackageTests/PackageTests.swift''"
  let ?in = "\<lambda>item.
          suffix ''Suite/testA'' (item_id item)
          \<and> (\<exists>parent targetTestItem target.
                item_parent item = Some parent \<and> item_parent parent = Some targetTestItem
                \<and> find (\<lambda>t. item_label targetTestItem = name t)
                      (targets (swiftPackage example_folder)) = Some target
                \<and> example_relative (example_join (folder example_folder) (path target)) ?file
                    \<in> set (sources target))"
  note T = C8_getIndex_NonDarwin [where hint = ?file and filename = None
      and its = example_run_items and pjoin = example_join and prelative = example_relative
      and ctx = example_folder and ident = "''Suite/testA''", unfolded Let_def]
  note Z = C8_getIndex_NonDarwin [where hint = ?file and filename = "Some ?file"
      and its = example_run_items and pjoin = example_join and prelative = example_relative
      and ctx = example_folder and ident = "''Suite/testZ''", unfolded Let_def]
  have ne: "?file \<noteq> []" by simp
  have s0: "suffix ''Suite/testA'' (item_id (example_run_items ! 0))"
    by (simp add: example_run_items_def suffix_def)
  have s1: "suffix ''Suite/testA'' (item_id (example_run_items ! 1))"
    by (simp add: example_run_items_def suffix_def)
  have own: "\<exists>parent targetTestItem.
         item_parent (example_run_items ! 1) = Some parent
         \<and> item_parent parent = Some targetTestItem
         \<and> find (\<lambda>t. item_label targetTestItem = name t) (targets (swiftPackage example_folder))
             = Some example_target
         \<and> example_relative (example_join (folder example_folder) (path example_target)) ?file
             \<in> set (sources example_target)"
    by (simp add: example_run_items_def example_folder_def example_package_def
        example_target_def example_join_def example_relative_def)
  have m0: "example_run_items ! 0 \<in> set example_run_items"
    and m1: "example_run_items ! 1 \<in> set example_run_items"
    by (simp_all add: example_run_items_def)
  have in1: "?in (example_run_items ! 1)" using s1 own by blast
  have ex: "\<exists>item \<in> set example_run_items. ?in item" using in1 m1 by blast
  have sx: "\<exists>item \<in> set example_run_items. suffix ''Suite/testA'' (item_id item)"
    using s0 m0 by blast
  have hinted: "first_index ?in example_run_items
      (getIndex_NonDarwin example_join example_relative example_folder example_run_items
         ''Suite/testA'' (Some ?file))"
    using T ne ex by blast
  have plain: "first_index (\<lambda>item. suffix ''Suite/testA'' (item_id item)) example_run_items
      (getIndex_NonDarwin example_join example_relative example_folder example_run_items
         ''Suite/testA'' None)"
    using T sx by blast
  have none: "\<not> (\<exists>item \<in> set example_run_items. suffix ''Suite/testZ'' (item_id item))"
    using Z example_getIndex by blast
  show ?thesis
    using ne s0 s1 own hinted plain none example_getIndex by simp
qed

section \<open>Exit codes of the test process\<close>

lemma fold_onDidWrite_flags:
  "didError (fold (onDidWrite out) acts s) = didError s
   \<and> settled (fold (onDidWrite out) acts s) = settled s"
  by (induction acts arbitrary: s) (auto simp: onDidWrite_def split: proc_activity.splits)

lemma runStandardSession_Closes:
  "runStandardSession out \<lparr>activity = acts, ending = Closes code\<rparr> p =
     (fold (onDidWrite out) acts \<lparr>didError = False, settled = Pending, proxy = p\<rparr>)
       \<lparr>settled := (if code = None \<or> code = Some 0 then Resolved else Rejected (ExitCode (the code)))\<rparr>"
  by (auto simp: runStandardSession_def onDidClose_def Let_def fold_onDidWrite_flags
      resolve_def reject_def split: option.splits)

lemma runStandardSession_Throws:
  "runStandardSession out \<lparr>activity = acts, ending = ThrowsThenCloses err code\<rparr> p =
     (fold (onDidWrite out) acts \<lparr>didError = False, settled = Pending, proxy = p\<rparr>)
       \<lparr>didError := True, settled := Rejected err\<rparr>"
  by (simp add: runStandardSession_def onDidClose_def onDidThrowError_def Let_def
      fold_onDidWrite_flags reject_def)

lemma run_output_appendOutput: "run_output (appendOutput t p) = run_output p @ [t]"
  by (simp add: run_output_def appendOutput_def split: option.splits)

text \<open>The outcome of the session for each way the process ends: the proxy is the one
  that the output of the process leaves.\<close>

lemma of_session_Closes:
  "of_session (runStandardSession out \<lparr>activity = acts, ending = Closes code\<rparr> p)
   = (if code = None \<or> code = Some 0
      then Returns (proxy (runStandardSession out \<lparr>activity = acts, ending = Closes (Some 0)\<rparr> p))
      else Throws (ExitCode (the code))
             (proxy (runStandardSession out \<lparr>activity = acts, ending = Closes (Some 0)\<rparr> p)))"
  by (simp add: of_session_def runStandardSession_Closes)

lemma of_session_Throws:
  "of_session (runStandardSession out \<lparr>activity = acts, ending = ThrowsThenCloses err code\<rparr> p)
   = Throws err (proxy (runStandardSession out \<lparr>activity = acts, ending = Closes (Some 0)\<rparr> p))"
  by (simp add: of_session_def runStandardSession_Closes runStandardSession_Throws)

text \<open>
  Claim C4.  A process that closes with exit code 0 or without a code resolves the
  session; any other exit code rejects it with the code, and an error of the process
  rejects it with the error.  For exit code 1, \<open>launchTests\<close> returns what it returns for
  exit code 0, for every kind of run: for a standard run this is the proxy as the output
  of the process has left it, with no text added.  For any other exit code, and for any
  error thrown by the process other than the value 1, the text made of carriage return,
  line feed, \<open>Error: \<close> and the description of the code or error is appended to the
  output of the run, after the output of the session, for a standard run, for a coverage
  run, and for a parallel run whose start has not failed.
\<close>

theorem C4_exit_codes:
  "let session = (\<lambda>ended. runStandardSession out \<lparr>activity = acts, ending = ended\<rparr>);
       launch = (\<lambda>kind ended. launchTests env kind out \<lparr>activity = acts, ending = ended\<rparr> p);
       errorOutput = (\<lambda>e. [CHR 0x0D, CHR 0x0A] @ ''Error: '' @ describe env e);
       p1 = appendOutput (''> Test run started at '' @ now env @ '' <''
                            @ [CHR 0x0D, CHR 0x0A, CHR 0x0D, CHR 0x0A]) p;
       q = proxy (session (Closes (Some 0)) p1);
       qp = proxy (session (Closes (Some 0)) (snd (testRunStarted p1)))
   in settled (session (Closes None) p) = Resolved
      \<and> settled (session (Closes (Some 0)) p) = Resolved
      \<and> (c \<noteq> 0 \<longrightarrow> settled (session (Closes (Some c)) p) = Rejected (ExitCode c))
      \<and> settled (session (ThrowsThenCloses err code) p) = Rejected err
      \<and> launch standard (Closes None) = Returns q
      \<and> launch standard (Closes (Some 0)) = Returns q
      \<and> launch standard (Closes (Some 1)) = Returns q
      \<and> launch testKind (Closes (Some 1)) = launch testKind (Closes (Some 0))
      \<and> launch testKind (Closes None) = launch testKind (Closes (Some 0))
      \<and> (captureCoverage env = Settles () \<longrightarrow> launch coverage (Closes (Some 1)) = Returns q)
      \<and> (c \<noteq> 0 \<and> c \<noteq> 1 \<longrightarrow>
            launch standard (Closes (Some c)) = Returns (appendOutput (errorOutput (ExitCode c)) q)
            \<and> launch coverage (Closes (Some c)) = Returns (appendOutput (errorOutput (ExitCode c)) q)
            \<and> (fst (testRunStarted p1) = None \<longrightarrow>
                 launch parallel (Closes (Some c))
                   = Returns (appendOutput (errorOutput (ExitCode c)) qp)))
      \<and> (err \<noteq> ExitCode 1 \<longrightarrow>
            launch standard (ThrowsThenCloses err code) = Returns (appendOutput (errorOutput err) q)
            \<and> launch coverage (ThrowsThenCloses err code) = Returns (appendOutput (errorOutput err) q)
            \<and> (fst (testRunStarted p1) = None \<longrightarrow>
                 launch parallel (ThrowsThenCloses err code)
                   = Returns (appendOutput (errorOutput err) qp)))
      \<and> (\<forall>t r. run_output (appendOutput t r) = run_output r @ [t])"
proof -
  let ?session = "\<lambda>ended. runStandardSession out \<lparr>activity = acts, ending = ended\<rparr>"
  let ?launch = "\<lambda>kind ended. launchTests env kind out \<lparr>activity = acts, ending = ended\<rparr> p"
  let ?text = "\<lambda>e. [CHR 0x0D, CHR 0x0A] @ ''Error: '' @ describe env e"
  let ?p1 = "appendOutput (startedText (now env)) p"
  let ?q = "proxy (?session (Closes (Some 0)) ?p1)"
  let ?qp = "proxy (?session (Closes (Some 0)) (snd (testRunStarted ?p1)))"
  have st: "''> Test run started at '' @ now env @ '' <'' @ [CHR 0x0D, CHR 0x0A, CHR 0x0D, CHR 0x0A]
      = startedText (now env)"
    by (simp add: startedText_def)
  have s1: "settled (?session (Closes None) p) = Resolved"
    and s2: "settled (?session (Closes (Some 0)) p) = Resolved"
    and s3: "c \<noteq> 0 \<Longrightarrow> settled (?session (Closes (Some c)) p) = Rejected (ExitCode c)"
    and s4: "settled (?session (ThrowsThenCloses err code) p) = Rejected err"
    by (simp_all add: runStandardSession_Closes runStandardSession_Throws fold_onDidWrite_flags)
  have std: "?launch standard (Closes code') = Returns ?q"
    if "code' = None \<or> code' = Some 0 \<or> code' = Some 1" for code'
    using that by (auto simp: launchTests_def of_session_Closes isTestFailure_def Let_def)
  have same1: "?launch k (Closes (Some 1)) = ?launch k (Closes (Some 0))" for k
    by (cases k; cases "testRunStarted ?p1"; cases "fst (testRunStarted ?p1)")
      (simp_all add: launchTests_def runCoverageSession_def runParallelSession_def
        of_session_Closes isTestFailure_def Let_def)
  have same2: "?launch k (Closes None) = ?launch k (Closes (Some 0))" for k
    by (cases k; cases "testRunStarted ?p1"; cases "fst (testRunStarted ?p1)")
      (simp_all add: launchTests_def runCoverageSession_def runParallelSession_def
        of_session_Closes isTestFailure_def Let_def)
  have cov1: "?launch coverage (Closes (Some 1)) = Returns ?q" if "captureCoverage env = Settles ()"
    using that
    by (simp add: launchTests_def runCoverageSession_def of_session_Closes isTestFailure_def
        Let_def)
  have other_std: "?launch standard (Closes (Some c)) = Returns (appendOutput (?text (ExitCode c)) ?q)"
    and other_cov: "?launch coverage (Closes (Some c)) = Returns (appendOutput (?text (ExitCode c)) ?q)"
    if "c \<noteq> 0" "c \<noteq> 1"
    using that
    by (simp_all add: launchTests_def runCoverageSession_def of_session_Closes isTestFailure_def
        errorText_def Let_def)
  have other_par: "?launch parallel (Closes (Some c)) = Returns (appendOutput (?text (ExitCode c)) ?qp)"
    if "c \<noteq> 0" "c \<noteq> 1" "fst (testRunStarted ?p1) = None"
    using that
    by (cases "testRunStarted ?p1")
      (simp add: launchTests_def runParallelSession_def of_session_Closes isTestFailure_def
        errorText_def Let_def)
  have err_std: "?launch standard (ThrowsThenCloses err code) = Returns (appendOutput (?text err) ?q)"
    and err_cov: "?launch coverage (ThrowsThenCloses err code) = Returns (appendOutput (?text err) ?q)"
    if "err \<noteq> ExitCode 1"
    using that
    by (simp_all add: launchTests_def runCoverageSession_def of_session_Throws isTestFailure_def
        errorText_def Let_def)
  have err_par: "?launch parallel (ThrowsThenCloses err code) = Returns (appendOutput (?text err) ?qp)"
    if "err \<noteq> ExitCode 1" "fst (testRunStarted ?p1) = None"
    using that
    by (cases "testRunStarted ?p1")
      (simp add: launchTests_def runParallelSession_def of_session_Throws isTestFailure_def
        errorText_def Let_def)
  show ?thesis
    unfolding Let_def st
    using s1 s2 s3 s4 std same1 same2 cov1 other_std other_cov other_par err_std err_cov err_par
      run_output_appendOutput
    by blast
qed

lemma example_env_fields:
  "now (example_env b e) = ''10:00''" "describe (example_env b e) = example_describe"
  "captureCoverage (example_env b e) = Settles ()"
  by (simp_all add: example_env_def)

text \<open>A process that writes \<open>ok\<close> and closes with exit code 1, with exit code 2, or fails
  to start: the output of the run is written out for each.\<close>

theorem C4_exit_codes_witness:
  "(2::int) \<noteq> 0 \<and> (2::int) \<noteq> 1 \<and> Error ''spawn failed'' \<noteq> ExitCode 1
   \<and> fst (testRunStarted (appendOutput (''> Test run started at 10:00 <''
                                          @ [CHR 0x0D, CHR 0x0A, CHR 0x0D, CHR 0x0A])
                            (new_TestRunProxy [example_item]))) = None
   \<and> settled (runStandardSession parsing \<lparr>activity = [Wrote ''ok'' []], ending = Closes (Some 2)\<rparr>
        (new_TestRunProxy [example_item])) = Rejected (ExitCode 2)
   \<and> (\<exists>q. launchTests (example_env (Settles (Some 0)) (Closes None)) standard parsing
              \<lparr>activity = [Wrote ''ok'' []], ending = Closes (Some 1)\<rparr> (new_TestRunProxy [example_item])
            = Returns q
          \<and> run_output q
              = [''> Test run started at 10:00 <'' @ [CHR 0x0D, CHR 0x0A, CHR 0x0D, CHR 0x0A], ''ok''])
   \<and> (\<forall>kind. \<exists>q. launchTests (example_env (Settles (Some 0)) (Closes None)) kind parsing
              \<lparr>activity = [Wrote ''ok'' []], ending = Closes (Some 2)\<rparr> (new_TestRunProxy [example_item])
            = Returns q
          \<and> run_output q
              = [''> Test run started at 10:00 <'' @ [CHR 0x0D, CHR 0x0A, CHR 0x0D, CHR 0x0A], ''ok'',
                 [CHR 0x0D, CHR 0x0A] @ ''Error: exit code''])
   \<and> (\<forall>kind. \<exists>q. launchTests (example_env (Settles (Some 0)) (Closes None)) kind parsing
              \<lparr>activity = [Wrote ''ok'' []], ending = ThrowsThenCloses (Error ''spawn failed'') None\<rparr>
              (new_TestRunProxy [example_item])
            = Returns q
          \<and> run_output q
              = [''> Test run started at 10:00 <'' @ [CHR 0x0D, CHR 0x0A, CHR 0x0D, CHR 0x0A], ''ok'',
                 [CHR 0x0D, CHR 0x0A] @ ''Error: spawn failed''])"
proof -
  let ?E = "example_env (Settles (Some 0)) (Closes None)"
  let ?p0 = "new_TestRunProxy [example_item]"
  let ?started = "''> Test run started at 10:00 <'' @ [CHR 0x0D, CHR 0x0A, CHR 0x0D, CHR 0x0A]"
  have st: "''> Test run started at '' @ ''10:00'' @ '' <''
              @ [CHR 0x0D, CHR 0x0A, CHR 0x0D, CHR 0x0A] = ?started"
    by simp
  let ?p1 = "appendOutput ?started ?p0"
  let ?q = "proxy (runStandardSession parsing
        \<lparr>activity = [Wrote ''ok'' []], ending = Closes (Some 0)\<rparr> ?p1)"
  let ?qp = "proxy (runStandardSession parsing
        \<lparr>activity = [Wrote ''ok'' []], ending = Closes (Some 0)\<rparr> (snd (testRunStarted ?p1)))"
  let ?launch = "\<lambda>kind ended. launchTests ?E kind parsing
        \<lparr>activity = [Wrote ''ok'' []], ending = ended\<rparr> ?p0"
  note T = C4_exit_codes [where c = 2 and err = "Error ''spawn failed''" and out = parsing
        and acts = "[Wrote ''ok'' []]" and p = ?p0 and env = ?E and testKind = standard
        and code = None, unfolded Let_def example_env_fields st]
  have n: "(2::int) \<noteq> 0" "(2::int) \<noteq> 1" "Error ''spawn failed'' \<noteq> ExitCode 1"
    by simp_all
  have ts: "fst (testRunStarted ?p1) = None"
    by (simp add: testRunStarted_def appendOutput_def new_TestRunProxy_def Let_def)
  have outq: "run_output ?q = [?started, ''ok'']"
    by (simp add: runStandardSession_Closes onDidWrite_def run_output_appendOutput crlf_def)
      (simp add: run_output_def new_TestRunProxy_def)
  have outqp: "run_output ?qp = [?started, ''ok'']"
    by (simp add: runStandardSession_Closes onDidWrite_def run_output_appendOutput crlf_def)
      (simp add: run_output_def new_TestRunProxy_def testRunStarted_def appendOutput_def Let_def)
  have app: "run_output (appendOutput t r) = run_output r @ [t]" for t r
    using T by blast
  have r: "settled (runStandardSession parsing
      \<lparr>activity = [Wrote ''ok'' []], ending = Closes (Some 2)\<rparr> ?p0) = Rejected (ExitCode 2)"
    using T n by blast
  have a1: "?launch standard (Closes (Some 1)) = Returns ?q"
    using T by blast
  have c2: "?launch standard (Closes (Some 2))
        = Returns (appendOutput ([CHR 0x0D, CHR 0x0A] @ ''Error: '' @ example_describe (ExitCode 2)) ?q)"
    and c2c: "?launch coverage (Closes (Some 2))
        = Returns (appendOutput ([CHR 0x0D, CHR 0x0A] @ ''Error: '' @ example_describe (ExitCode 2)) ?q)"
    and c2p: "?launch parallel (Closes (Some 2))
        = Returns (appendOutput ([CHR 0x0D, CHR 0x0A] @ ''Error: '' @ example_describe (ExitCode 2)) ?qp)"
    using T n ts by blast+
  have e2: "?launch standard (ThrowsThenCloses (Error ''spawn failed'') None)
        = Returns (appendOutput ([CHR 0x0D, CHR 0x0A] @ ''Error: ''
                                   @ example_describe (Error ''spawn failed'')) ?q)"
    and e2c: "?launch coverage (ThrowsThenCloses (Error ''spawn failed'') None)
        = Returns (appendOutput ([CHR 0x0D, CHR 0x0A] @ ''Error: ''
                                   @ example_describe (Error ''spawn failed'')) ?q)"
    and e2p: "?launch parallel (ThrowsThenCloses (Error ''spawn failed'') None)
        = Returns (appendOutput ([CHR 0x0D, CHR 0x0A] @ ''Error: ''
                                   @ example_describe (Error ''spawn failed'')) ?qp)"
    using T n ts by blast+
  have d: "example_describe (ExitCode 2) = ''exit code''"
    "example_describe (Error ''spawn failed'') = ''spawn failed''"
    by (simp_all add: example_describe_def)
  have one: "\<exists>q. ?launch standard (Closes (Some 1)) = Returns q \<and> run_output q = [?started, ''ok'']"
    using a1 outq by blast
  have o2: "run_output (appendOutput ([CHR 0x0D, CHR 0x0A] @ ''Error: ''
                                        @ example_describe (ExitCode 2)) ?q)
        = [?started, ''ok'', [CHR 0x0D, CHR 0x0A] @ ''Error: exit code'']"
    and o2p: "run_output (appendOutput ([CHR 0x0D, CHR 0x0A] @ ''Error: ''
                                          @ example_describe (ExitCode 2)) ?qp)
        = [?started, ''ok'', [CHR 0x0D, CHR 0x0A] @ ''Error: exit code'']"
    and o3: "run_output (appendOutput ([CHR 0x0D, CHR 0x0A] @ ''Error: ''
                                         @ example_describe (Error ''spawn failed'')) ?q)
        = [?started, ''ok'', [CHR 0x0D, CHR 0x0A] @ ''Error: spawn failed'']"
    and o3p: "run_output (appendOutput ([CHR 0x0D, CHR 0x0A] @ ''Error: ''
                                          @ example_describe (Error ''spawn failed'')) ?qp)
        = [?started, ''ok'', [CHR 0x0D, CHR 0x0A] @ ''Error: spawn failed'']"
    unfolding app outq outqp d by simp_all
  have two: "\<exists>q. ?launch kind (Closes (Some 2)) = Returns q
      \<and> run_output q = [?started, ''ok'', [CHR 0x0D, CHR 0x0A] @ ''Error: exit code'']" for kind
  proof (cases kind)
    case standard
    then show ?thesis using c2 o2 by blast
  next
    case parallel
    then show ?thesis using c2p o2p by blast
  next
    case coverage
    then show ?thesis using c2c o2 by blast
  qed
  have three: "\<exists>q. ?launch kind (ThrowsThenCloses (Error ''spawn failed'') None) = Returns q
      \<and> run_output q = [?started, ''ok'', [CHR 0x0D, CHR 0x0A] @ ''Error: spawn failed'']" for kind
  proof (cases kind)
    case standard
    then show ?thesis using e2 o3 by blast
  next
    case parallel
    then show ?thesis using e2p o3p by blast
  next
    case coverage
    then show ?thesis using e2c o3 by blast
  qed
  show ?thesis
    using n ts r one two three by blast
qed

section \<open>Finalisation of a test run\<close>

lemma unended_new: "unended (new_TestRunProxy argItems)"
  by (simp add: unended_def calls_of_def new_TestRunProxy_def)

lemma unended_appendOutput: "unended p \<Longrightarrow> unended (appendOutput t p)"
  by (auto simp: unended_def calls_of_def appendOutput_def split: option.splits)

lemma unended_testRunStarted: "unended p \<Longrightarrow> unended (snd (testRunStarted p))"
  by (auto simp: unended_def calls_of_def testRunStarted_def Let_def split: option.splits)

lemma unended_onRun: "c \<noteq> RunEnd \<Longrightarrow> unended p \<Longrightarrow> unended (onRun c p)"
  by (auto simp: unended_def calls_of_def onRun_def split: option.splits)

lemma unended_field_updates:
  "unended (p\<lparr>runState_skipped := a\<rparr>) = unended p"
  "unended (p\<lparr>runState_passed := a\<rparr>) = unended p"
  "unended (p\<lparr>runState_failed := a\<rparr>) = unended p"
  "unended (p\<lparr>runState_errored := a\<rparr>) = unended p"
  "unended (p\<lparr>addedTestItems := b\<rparr>) = unended p"
  by (simp_all add: unended_def calls_of_def)

lemma unended_apply_op: "unended p \<Longrightarrow> unended (apply_op op p)"
  by (cases op)
    (simp_all add: unended_testRunStarted addParameterizedTestCase_def started_proxy_def
      skipped_proxy_def passed_proxy_def failed_proxy_def errored_proxy_def unended_onRun
      unended_field_updates)

lemma unended_fold_apply_op: "unended p \<Longrightarrow> unended (fold apply_op ops p)"
  by (induction ops arbitrary: p) (simp_all add: unended_apply_op)

lemma unended_stream_write: "unended p \<Longrightarrow> unended (stream_write out text ops p)"
  by (cases out) (simp_all add: unended_fold_apply_op unended_appendOutput)

lemma unended_onDidWrite: "unended (proxy s) \<Longrightarrow> unended (proxy (onDidWrite out a s))"
  by (cases a) (simp_all add: onDidWrite_def unended_stream_write unended_fold_apply_op)

lemma unended_fold_onDidWrite:
  "unended (proxy s) \<Longrightarrow> unended (proxy (fold (onDidWrite out) acts s))"
  by (induction acts arbitrary: s) (simp_all add: unended_onDidWrite)

lemma unended_runStandardSession:
  assumes "unended p"
  shows "unended (proxy (runStandardSession out pr p))"
proof -
  have "unended (proxy (fold (onDidWrite out) (activity pr)
          \<lparr>didError = False, settled = Pending, proxy = p\<rparr>))"
    using assms by (simp add: unended_fold_onDidWrite)
  then show ?thesis
    by (cases "ending pr")
      (auto simp: runStandardSession_def onDidClose_def onDidThrowError_def Let_def
        split: option.splits)
qed

lemma unended_of_session: "unended (proxy s) \<Longrightarrow> unended_outcome (of_session s)"
  by (simp add: of_session_def split: promise.splits)

lemma unended_runCoverageSession:
  assumes "unended p"
  shows "unended_outcome (runCoverageSession env out pr p)"
  using unended_of_session [OF unended_runStandardSession [OF assms, of out pr]]
  by (auto simp: runCoverageSession_def Let_def split: outcome.splits awaited.splits)

lemma unended_runParallelSession:
  assumes "unended p"
  shows "unended_outcome (runParallelSession env out pr p)"
proof (cases "testRunStarted p")
  case (Pair err p1)
  have p1: "unended p1"
    using unended_testRunStarted [OF assms] Pair by simp
  show ?thesis
  proof (cases err)
    case (Some e)
    then show ?thesis using Pair p1 by (simp add: runParallelSession_def)
  next
    case None
    then show ?thesis
      using Pair unended_of_session [OF unended_runStandardSession [OF p1, of out pr]]
      by (auto simp: runParallelSession_def Let_def unended_fold_apply_op unended_appendOutput
          split: outcome.splits awaited.splits prod.splits option.splits)
  qed
qed

lemma unended_launchTests:
  assumes "unended p"
  shows "unended_outcome (launchTests env testKind out pr p)"
proof -
  let ?p1 = "appendOutput (startedText (now env)) p"
  have p1: "unended ?p1" using assms by (rule unended_appendOutput)
  have "unended_outcome (case testKind of
                 coverage \<Rightarrow> runCoverageSession env out pr ?p1
               | parallel \<Rightarrow> runParallelSession env out pr ?p1
               | standard \<Rightarrow> of_session (runStandardSession out pr ?p1))"
    using p1
    by (cases testKind)
      (simp_all add: unended_runCoverageSession unended_runParallelSession unended_of_session
        unended_runStandardSession)
  then show ?thesis
    by (auto simp: launchTests_def Let_def unended_appendOutput split: outcome.splits)
qed

lemma unended_runSession_swiftTesting:
  "unended p \<Longrightarrow> unended_outcome (runSession_swiftTesting env testKind p)"
  by (auto simp: runSession_swiftTesting_def unended_launchTests split: awaited.splits)

lemma unended_runSession_XCTest:
  assumes "unended p"
  shows "unended_outcome (runSession_XCTest env testKind p)"
proof (cases "testRunStarted p")
  case (Pair err p1)
  have p1: "unended p1"
    using unended_testRunStarted [OF assms] Pair by simp
  show ?thesis
    using Pair p1 assms
    by (cases err) (simp_all add: runSession_XCTest_def unended_launchTests)
qed

lemma unended_runSession:
  assumes "unended p"
  shows "unended_outcome (runSession env testKind p)"
proof -
  let ?r = "if hasSwiftTestingTests env then runSession_swiftTesting env testKind p else Returns p"
  have r: "unended_outcome ?r"
    using assms by (simp add: unended_runSession_swiftTesting)
  show ?thesis
  proof (cases ?r)
    case (Returns q)
    then have "unended q" using r by simp
    then show ?thesis
      using Returns by (simp add: runSession_def unended_runSession_XCTest)
  next
    case (Throws e q)
    then show ?thesis using r by (simp add: runSession_def)
  next
    case Hangs
    then show ?thesis by (simp add: runSession_def)
  qed
qed

lemma unended_debugSession:
  assumes "unended p"
  shows "unended_outcome (debugSession env p)"
proof -
  have step: "unended q \<Longrightarrow> unended (case a of
        Wrote output ops \<Rightarrow> fold apply_op ops (appendOutput output q)
      | Piped ops \<Rightarrow> fold apply_op ops q)" for a q
    by (cases a) (simp_all add: unended_fold_apply_op unended_appendOutput)
  have "unended (fold (\<lambda>a q. case a of
        Wrote output ops \<Rightarrow> fold apply_op ops (appendOutput output q)
      | Piped ops \<Rightarrow> fold apply_op ops q) acts q)" if "unended q" for acts q
    using that by (induction acts arbitrary: q) (simp_all add: step)
  then show ?thesis
    using assms by (auto simp: debugSession_def Let_def split: awaited.splits)
qed

lemma end_proxy_once:
  assumes "unended p"
  shows "ended_once cc (end_proxy cc p)"
proof -
  have "count_list xs RunEnd = 0" if "RunEnd \<notin> set xs" for xs :: "run_call list"
    using that by (induction xs) auto
  then show ?thesis
    using assms
    by (auto simp: unended_def calls_of_def end_proxy_def Let_def
        split: option.splits awaited.splits)
qed

lemma unended_runHandler_try:
  assumes "unended p" and "testRun p = None"
    and "runHandler_try env shouldDebug testKind p = Some t"
  shows "case t of Completes q \<Rightarrow> unended q | Raises e q \<Rightarrow> unended q
         | Leaves q \<Rightarrow> q = p\<lparr>endInvocations := 1\<rparr>"
proof -
  let ?s = "if shouldDebug then debugSession env p else runSession env testKind p"
  have s: "unended_outcome ?s"
    using assms(1) by (simp add: unended_debugSession unended_runSession)
  have o: "of_outcome ?s = Some t \<Longrightarrow> ?thesis"
    using s by (cases ?s) (auto simp: of_outcome_def)
  have e: "end_proxy (computeCoverage env) p = Returns (p\<lparr>endInvocations := 1\<rparr>)"
    using assms(1,2) by (simp add: end_proxy_def unended_def Let_def)
  show ?thesis
  proof (cases "testKind \<noteq> coverage")
    case False
    then have "of_outcome ?s = Some t"
      using assms(3) by (auto simp: runHandler_try_def Let_def split: if_splits)
    then show ?thesis by (rule o)
  next
    case True
    show ?thesis
    proof (cases "buildTask env")
      case (Settles exitCode)
      then show ?thesis
        using True assms o e by (auto simp: runHandler_try_def Let_def split: if_splits)
    next
      case (Rejects e)
      then show ?thesis using True assms by (auto simp: runHandler_try_def Let_def)
    next
      case Never
      then show ?thesis using True assms by (auto simp: runHandler_try_def Let_def)
    qed
  qed
qed

text \<open>When every collaborator that is awaited settles or rejects, and each process
  closes, no step of the handler stays pending.\<close>

lemma of_session_settles:
  "ending pr \<noteq> NeverCloses \<Longrightarrow> of_session (runStandardSession out pr p) \<noteq> Hangs"
  by (cases "ending pr")
    (auto simp: of_session_def runStandardSession_def onDidClose_def onDidThrowError_def
      fold_onDidWrite_flags resolve_def reject_def Let_def split: option.splits promise.splits)

lemma launchTests_settles:
  assumes "ending pr \<noteq> NeverCloses" "captureCoverage env \<noteq> Never" "readXUnitFile env \<noteq> Never"
  shows "\<exists>q. launchTests env testKind out pr p = Returns q"
proof -
  let ?p1 = "appendOutput (startedText (now env)) p"
  have s: "of_session (runStandardSession out pr q) \<noteq> Hangs" for q
    using assms(1) by (rule of_session_settles)
  have cov: "runCoverageSession env out pr ?p1 \<noteq> Hangs"
    using s [of ?p1] assms(2)
    by (auto simp: runCoverageSession_def Let_def split: outcome.splits awaited.splits)
  have par: "runParallelSession env out pr ?p1 \<noteq> Hangs"
    using s [of "snd (testRunStarted ?p1)"] assms(3)
    by (cases "testRunStarted ?p1")
      (auto simp: runParallelSession_def Let_def
        split: outcome.splits awaited.splits prod.splits option.splits)
  show ?thesis
    using s [of ?p1] cov par
    by (cases testKind) (auto simp: launchTests_def Let_def split: outcome.splits)
qed

lemma runSession_settles:
  assumes "mkfifo env \<noteq> Never" "watchPipe env \<noteq> Never"
    and "ending (swiftTestingProcess env) \<noteq> NeverCloses"
    and "ending (xcTestProcess env) \<noteq> NeverCloses"
    and "captureCoverage env \<noteq> Never" "readXUnitFile env \<noteq> Never"
  shows "runSession env testKind p \<noteq> Hangs"
proof -
  have l: "\<exists>q. launchTests env k out (swiftTestingProcess env) r = Returns q" for k out r
    using assms(3,5,6) by (rule launchTests_settles)
  have x: "\<exists>q. launchTests env k out (xcTestProcess env) r = Returns q" for k out r
    using assms(4,5,6) by (rule launchTests_settles)
  have sw: "runSession_swiftTesting env testKind p \<noteq> Hangs"
    using assms(1,2) l [of "if testKind = parallel then standard else testKind" forwarding p]
    by (auto simp: runSession_swiftTesting_def split: awaited.splits)
  have xc: "runSession_XCTest env testKind r \<noteq> Hangs" for r
    using x [of testKind parsing "snd (testRunStarted r)"]
    by (cases "testRunStarted r")
      (auto simp: runSession_XCTest_def split: option.splits)
  show ?thesis
    using sw xc by (auto simp: runSession_def split: outcome.splits)
qed

lemma runHandler_settles:
  assumes "buildTask env \<noteq> Never" "mkfifo env \<noteq> Never" "watchPipe env \<noteq> Never"
    and "ending (swiftTestingProcess env) \<noteq> NeverCloses"
    and "ending (xcTestProcess env) \<noteq> NeverCloses"
    and "captureCoverage env \<noteq> Never" "readXUnitFile env \<noteq> Never"
    and "debugEnding env \<noteq> Never"
    and cc: "\<forall>calls. computeCoverage env calls = Settles ()"
  shows "\<exists>q. runHandler env shouldDebug testKind p = Returns q"
proof -
  have e: "\<exists>q. end_proxy (computeCoverage env) r = Returns q" for r
    using cc by (auto simp: end_proxy_def Let_def split: option.splits)
  have d: "debugSession env p \<noteq> Hangs"
    using assms(8) by (auto simp: debugSession_def Let_def split: awaited.splits)
  have r: "runSession env testKind p \<noteq> Hangs"
    using assms(2-7) by (rule runSession_settles)
  have s: "of_outcome (if shouldDebug then debugSession env p else runSession env testKind p)
      \<noteq> None"
    using d r by (auto simp: of_outcome_def split: outcome.splits)
  have t: "runHandler_try env shouldDebug testKind p \<noteq> None"
    using assms(1) s e [of p]
    by (auto simp: runHandler_try_def Let_def split: awaited.splits)
  then obtain b where b: "runHandler_try env shouldDebug testKind p = Some b" by blast
  show ?thesis
    using b e by (cases b) (auto simp: runHandler_def)
qed

text \<open>
  Claim C1.  Whenever \<open>runHandler\<close> returns, \<open>end()\<close> of the test run proxy, the object
  that the runner reports to, has been invoked exactly once; the run of the host behind
  it, when it was created, has received exactly one \<open>end()\<close>, as its last call, and when
  no run was created there is none to end.  This covers the failed build, an error thrown
  by the build or by the session, a session cut short by cancellation, and a normal
  completion.  After a build with an exit code other than 0, or with none, the handler
  returns at once, with \<open>end()\<close> invoked and nothing else done.  The handler itself throws
  only what the coverage collaborator throws inside \<open>end()\<close>: then too \<open>end()\<close> has been
  invoked exactly once, and the run of the host exists and has not been ended.  And the
  handler does return when nothing that it awaits stays pending and the coverage
  collaborator settles.
\<close>

theorem C1_end_exactly_once:
  "(runHandler env shouldDebug testKind (new_TestRunProxy argItems) = Returns p
    \<longrightarrow> endInvocations p = 1
        \<and> count_list (calls_of p) RunEnd = (if testRun p = None then 0 else 1)
        \<and> (testRun p = None \<or> last (calls_of p) = RunEnd))
   \<and> (runHandler env shouldDebug testKind (new_TestRunProxy argItems) = Throws e p
    \<longrightarrow> endInvocations p = 1
        \<and> (\<exists>calls. testRun p = Some (calls @ [RunComputeCoverage])
               \<and> computeCoverage env calls = Rejects e \<and> RunEnd \<notin> set calls))
   \<and> (testKind \<noteq> coverage \<and> buildTask env = Settles exitCode \<and> exitCode \<noteq> Some 0
      \<longrightarrow> runHandler env shouldDebug testKind (new_TestRunProxy argItems)
            = Returns ((new_TestRunProxy argItems)\<lparr>endInvocations := 1\<rparr>))
   \<and> (buildTask env \<noteq> Never \<and> mkfifo env \<noteq> Never \<and> watchPipe env \<noteq> Never
       \<and> ending (swiftTestingProcess env) \<noteq> NeverCloses
       \<and> ending (xcTestProcess env) \<noteq> NeverCloses
       \<and> captureCoverage env \<noteq> Never \<and> readXUnitFile env \<noteq> Never
       \<and> debugEnding env \<noteq> Never \<and> (\<forall>calls. computeCoverage env calls = Settles ())
      \<longrightarrow> (\<exists>q. runHandler env shouldDebug testKind (new_TestRunProxy argItems) = Returns q))"
proof -
  let ?p0 = "new_TestRunProxy argItems"
  let ?cc = "computeCoverage env"
  have none: "testRun ?p0 = None" by (simp add: new_TestRunProxy_def)
  have a: "ended_once ?cc (runHandler env shouldDebug testKind ?p0)"
  proof (cases "runHandler_try env shouldDebug testKind ?p0")
    case None
    then show ?thesis by (simp add: runHandler_def)
  next
    case (Some t)
    note inv = unended_runHandler_try [OF unended_new none Some]
    show ?thesis
    proof (cases t)
      case (Completes q)
      then have "runHandler env shouldDebug testKind ?p0 = end_proxy ?cc q" and "unended q"
        using Some inv by (auto simp: runHandler_def)
      then show ?thesis using end_proxy_once by simp
    next
      case (Raises e q)
      then have "runHandler env shouldDebug testKind ?p0
          = end_proxy ?cc (appendOutput (errorText (describe env) e) q)" and "unended q"
        using Some inv by (auto simp: runHandler_def)
      then show ?thesis using end_proxy_once unended_appendOutput by simp
    next
      case (Leaves q)
      then have "runHandler env shouldDebug testKind ?p0 = Returns (?p0\<lparr>endInvocations := 1\<rparr>)"
        using Some inv by (auto simp: runHandler_def)
      then show ?thesis by (simp add: new_TestRunProxy_def calls_of_def)
    qed
  qed
  have b: "runHandler env shouldDebug testKind ?p0 = Returns (?p0\<lparr>endInvocations := 1\<rparr>)"
    if "testKind \<noteq> coverage" "buildTask env = Settles exitCode" "exitCode \<noteq> Some 0"
    using that
    by (auto simp: runHandler_def runHandler_try_def end_proxy_def new_TestRunProxy_def Let_def)
  have c: "\<exists>q. runHandler env shouldDebug testKind ?p0 = Returns q"
    if "buildTask env \<noteq> Never" "mkfifo env \<noteq> Never" "watchPipe env \<noteq> Never"
      "ending (swiftTestingProcess env) \<noteq> NeverCloses"
      "ending (xcTestProcess env) \<noteq> NeverCloses"
      "captureCoverage env \<noteq> Never" "readXUnitFile env \<noteq> Never"
      "debugEnding env \<noteq> Never" "\<forall>calls. computeCoverage env calls = Settles ()"
    using that by (rule runHandler_settles)
  have a1: "endInvocations p = 1
        \<and> count_list (calls_of p) RunEnd = (if testRun p = None then 0 else 1)
        \<and> (testRun p = None \<or> last (calls_of p) = RunEnd)"
    if "runHandler env shouldDebug testKind ?p0 = Returns p"
    using a that by simp
  have a2: "endInvocations p = 1
        \<and> (\<exists>calls. testRun p = Some (calls @ [RunComputeCoverage])
               \<and> computeCoverage env calls = Rejects e \<and> RunEnd \<notin> set calls)"
    if t: "runHandler env shouldDebug testKind ?p0 = Throws e p"
  proof -
    from a t have e1: "endInvocations p = 1" by simp
    from a t obtain calls where c: "testRun p = Some calls" "calls \<noteq> []"
      "last calls = RunComputeCoverage" "computeCoverage env (butlast calls) = Rejects e"
      "RunEnd \<notin> set (butlast calls)"
      by (auto split: option.splits)
    have "calls = butlast calls @ [RunComputeCoverage]"
      using c(2,3) by (metis append_butlast_last_id)
    then show ?thesis using e1 c by metis
  qed
  show ?thesis
    using a1 a2 b c by blast
qed

text \<open>Three runs of the example.  The tests run and one fails (exit code 1): the run of
  the host exists and is ended once.  The build fails: no run is created.  The tests run
  and the coverage collaborator rejects: the handler throws and the run is not ended.\<close>

lemma example_run_returns:
  "\<exists>q. runHandler (example_env (Settles (Some 0)) (Closes (Some 1))) False standard
          (new_TestRunProxy [example_item]) = Returns q \<and> testRun q \<noteq> None"
  by (simp add: runHandler_def runHandler_try_def runSession_def runSession_XCTest_def
      launchTests_def of_session_def of_outcome_def runStandardSession_Closes isTestFailure_def
      example_env_def Let_def end_proxy_def appendOutput_def testRunStarted_def
      new_TestRunProxy_def onDidWrite_def started_proxy_def onRun_def)

lemma example_run_throws:
  "\<exists>q. runHandler
          ((example_env (Settles (Some 0)) (Closes (Some 1)))
             \<lparr>computeCoverage := (\<lambda>calls. Rejects (Error ''no coverage''))\<rparr>)
          False standard (new_TestRunProxy [example_item])
        = Throws (Error ''no coverage'') q"
  by (simp add: runHandler_def runHandler_try_def runSession_def runSession_XCTest_def
      launchTests_def of_session_def of_outcome_def runStandardSession_Closes isTestFailure_def
      example_env_def Let_def end_proxy_def appendOutput_def testRunStarted_def
      new_TestRunProxy_def onDidWrite_def started_proxy_def onRun_def)

theorem C1_end_exactly_once_witness:
  "buildTask (example_env (Settles (Some 0)) (Closes (Some 1))) \<noteq> Never
   \<and> mkfifo (example_env (Settles (Some 0)) (Closes (Some 1))) \<noteq> Never
   \<and> watchPipe (example_env (Settles (Some 0)) (Closes (Some 1))) \<noteq> Never
   \<and> ending (swiftTestingProcess (example_env (Settles (Some 0)) (Closes (Some 1)))) \<noteq> NeverCloses
   \<and> ending (xcTestProcess (example_env (Settles (Some 0)) (Closes (Some 1)))) \<noteq> NeverCloses
   \<and> captureCoverage (example_env (Settles (Some 0)) (Closes (Some 1))) \<noteq> Never
   \<and> readXUnitFile (example_env (Settles (Some 0)) (Closes (Some 1))) \<noteq> Never
   \<and> debugEnding (example_env (Settles (Some 0)) (Closes (Some 1))) \<noteq> Never
   \<and> (\<forall>calls. computeCoverage (example_env (Settles (Some 0)) (Closes (Some 1))) calls = Settles ())
   \<and> (\<exists>q. runHandler (example_env (Settles (Some 0)) (Closes (Some 1))) False standard
          (new_TestRunProxy [example_item]) = Returns q
        \<and> testRun q \<noteq> None \<and> endInvocations q = 1
        \<and> count_list (calls_of q) RunEnd = 1 \<and> last (calls_of q) = RunEnd)
   \<and> runHandler (example_env (Settles (Some 1)) (Closes None)) False standard
          (new_TestRunProxy [example_item])
       = Returns ((new_TestRunProxy [example_item])\<lparr>endInvocations := 1\<rparr>)
   \<and> testRun ((new_TestRunProxy [example_item])\<lparr>endInvocations := 1\<rparr>) = None
   \<and> (\<exists>q. runHandler
            ((example_env (Settles (Some 0)) (Closes (Some 1)))
               \<lparr>computeCoverage := (\<lambda>calls. Rejects (Error ''no coverage''))\<rparr>)
            False standard (new_TestRunProxy [example_item])
          = Throws (Error ''no coverage'') q
        \<and> endInvocations q = 1 \<and> testRun q \<noteq> None \<and> RunEnd \<notin> set (calls_of q))"
proof -
  let ?p0 = "new_TestRunProxy [example_item]"
  let ?E = "example_env (Settles (Some 0)) (Closes (Some 1))"
  let ?R = "?E\<lparr>computeCoverage := (\<lambda>calls. Rejects (Error ''no coverage''))\<rparr>"
  note T = C1_end_exactly_once [where env = ?E and shouldDebug = False and testKind = standard
        and argItems = "[example_item]"]
  have settle: "buildTask ?E \<noteq> Never \<and> mkfifo ?E \<noteq> Never \<and> watchPipe ?E \<noteq> Never
      \<and> ending (swiftTestingProcess ?E) \<noteq> NeverCloses \<and> ending (xcTestProcess ?E) \<noteq> NeverCloses
      \<and> captureCoverage ?E \<noteq> Never \<and> readXUnitFile ?E \<noteq> Never \<and> debugEnding ?E \<noteq> Never
      \<and> (\<forall>calls. computeCoverage ?E calls = Settles ())"
    by (simp add: example_env_def)
  from T settle obtain q where q: "runHandler ?E False standard ?p0 = Returns q"
    by blast
  have run: "testRun q \<noteq> None"
    using example_run_returns q by auto
  have first: "endInvocations q = 1 \<and> count_list (calls_of q) RunEnd = 1
      \<and> last (calls_of q) = RunEnd"
    using T [where p = q] q run by simp
  have build: "buildTask (example_env (Settles (Some 1)) (Closes None)) = Settles (Some 1)"
    by (simp add: example_env_def)
  have none: "testRun (?p0\<lparr>endInvocations := 1\<rparr>) = None"
    by (simp add: new_TestRunProxy_def)
  have second: "runHandler (example_env (Settles (Some 1)) (Closes None)) False standard ?p0
      = Returns (?p0\<lparr>endInvocations := 1\<rparr>)"
    using C1_end_exactly_once [where env = "example_env (Settles (Some 1)) (Closes None)"
        and shouldDebug = False and testKind = standard and argItems = "[example_item]"
        and exitCode = "Some 1"] build
    by simp
  from example_run_throws obtain r where
    r: "runHandler ?R False standard ?p0 = Throws (Error ''no coverage'') r"
    by blast
  have "endInvocations r = 1
      \<and> (\<exists>calls. testRun r = Some (calls @ [RunComputeCoverage])
             \<and> computeCoverage ?R calls = Rejects (Error ''no coverage'') \<and> RunEnd \<notin> set calls)"
    using C1_end_exactly_once [where env = ?R and shouldDebug = False and testKind = standard
        and argItems = "[example_item]" and p = r and e = "Error ''no coverage''"
        and exitCode = None] r
    by blast
  then obtain calls where "endInvocations r = 1"
    and "testRun r = Some (calls @ [RunComputeCoverage])" and "RunEnd \<notin> set calls"
    by blast
  then have third: "endInvocations r = 1 \<and> testRun r \<noteq> None \<and> RunEnd \<notin> set (calls_of r)"
    by (simp add: calls_of_def)
  show ?thesis
    using settle q run first second none r third by blast
qed

section \<open>Discovery without the capability\<close>

text \<open>
  When the table of experimental capabilities is there (or the client has no result of
  the initialisation at all), a missing entry, an entry without version and a version
  below 2 all reject the request with the error that says the requests are not supported;
  a server of version 2 that finds no test answers with the empty list.
\<close>

lemma discovery_not_supported:
  assumes "initializeResult client = None
           \<or> (\<exists>caps table. initializeResult client = Some caps \<and> experimental caps = Some table
                \<and> \<not> atLeastVersion2 (table workspaceTestsRequest_method)
                \<and> \<not> atLeastVersion2 (table textDocumentTestsRequest_method))"
  shows "getWorkspaceTests prelative getTarget client pkg workspaceRoot = Rejects not_supported
       \<and> getDocumentTests getTarget client pkg document = Rejects not_supported"
  using assms
  by (auto simp: getWorkspaceTests_def getDocumentTests_def testCapabilities_def atLeastVersion2_def)

lemma discovery_supported_empty:
  assumes "initializeResult client = Some caps" and "experimental caps = Some table"
    and "table workspaceTestsRequest_method = Some \<lparr>version = Some v\<rparr>"
    and "table textDocumentTestsRequest_method = Some \<lparr>version = Some v\<rparr>" and "2 \<le> v"
    and "workspaceTests client = Settles []" and "textDocumentTests client document = Settles []"
  shows "getWorkspaceTests prelative getTarget client pkg workspaceRoot = Settles []
       \<and> getDocumentTests getTarget client pkg document = Settles []"
  using assms
  by (simp add: getWorkspaceTests_def getDocumentTests_def testCapabilities_def atLeastVersion2_def)

text \<open>
  Claim C3.  The claim asks for the error of unsupported discovery whenever the capability
  for the request is not advertised.  A server whose capabilities carry no table of
  experimental capabilities advertises none; for it the lookup of the capability itself
  fails, and both requests are rejected with the \<open>TypeError\<close> of the runtime instead of
  the error of unsupported discovery.
\<close>

theorem C3_no_experimental_table:
  "getWorkspaceTests example_relative example_getTarget
       (example_client (Some \<lparr>experimental = None\<rparr>)) example_package ''/pkg''
     = Rejects (TypeError ''Cannot read properties of undefined'')
   \<and> getDocumentTests example_getTarget
       (example_client (Some \<lparr>experimental = None\<rparr>)) example_package
       ''/pkg/Tests/PackageTests/PackageTests.swift''
     = Rejects (TypeError ''Cannot read properties of undefined'')
   \<and> TypeError ''Cannot read properties of undefined'' \<noteq> not_supported
   \<and> getWorkspaceTests example_relative example_getTarget
       (example_client (Some \<lparr>experimental = Some (\<lambda>m. Some \<lparr>version = Some 1\<rparr>)\<rparr>))
       example_package ''/pkg''
     = Rejects not_supported
   \<and> getWorkspaceTests example_relative example_getTarget
       (example_client (Some \<lparr>experimental = Some (\<lambda>m. Some \<lparr>version = Some 2\<rparr>)\<rparr>))
       example_package ''/pkg''
     = Settles []"
  by (simp add: getWorkspaceTests_def getDocumentTests_def testCapabilities_def
      atLeastVersion2_def example_client_def not_supported_def)

section \<open>Items of the streamed-event framework are not upserted\<close>

lemma no_swift_testing_add_item:
  "no_swift_testing x \<Longrightarrow> list_all no_swift_testing coll
     \<Longrightarrow> list_all no_swift_testing (add_item x coll)"
  by (induction coll) auto

lemma no_swift_testing_get_item:
  "list_all no_swift_testing coll \<Longrightarrow> get_item coll i = Some it \<Longrightarrow> no_swift_testing it"
  by (induction coll) (auto simp: get_item_def split: if_splits)

lemma no_swift_testing_children:
  "no_swift_testing it \<Longrightarrow> list_all no_swift_testing (ti_children it)"
  by (cases it) simp

lemma no_swift_testing_upsert:
  "list_all no_swift_testing coll
     \<Longrightarrow> list_all no_swift_testing (snd (upsertTestItem tc (n, coll)))"
proof (induction tc arbitrary: n coll)
  case (TestClass i l d s loc tgs cs)
  note prems = TestClass.prems
  show ?case
  proof (cases "s = ''swift-testing''")
    case True
    then show ?thesis using prems by simp
  next
    case False
    define newItem where "newItem = (case get_item coll i of
        Some it \<Rightarrow> it | None \<Rightarrow> createTestItem n i l (map_option fsPath loc))"
    define start where "start = (if get_item coll i = None then Suc n else n, ti_children newItem)"
    have kids0: "list_all no_swift_testing (ti_children newItem)"
      using prems
      by (auto simp: newItem_def createTestItem_def split: option.splits
          dest: no_swift_testing_get_item no_swift_testing_children)
    have step: "list_all no_swift_testing (snd (fold (\<lambda>child st. upsertTestItem child st) ys st))"
      if "set ys \<subseteq> set cs" "list_all no_swift_testing (snd st)" for ys st
      using that
    proof (induction ys arbitrary: st)
      case Nil
      then show ?case by simp
    next
      case (Cons y ys)
      have "list_all no_swift_testing (snd (upsertTestItem y (fst st, snd st)))"
        using TestClass.IH [of y "snd st" "fst st"] Cons.prems by simp
      then show ?case using Cons by simp
    qed
    have kids: "list_all no_swift_testing
        (snd (fold (\<lambda>child st. upsertTestItem child st) cs start))"
      using step [of cs start] kids0 by (simp add: start_def)
    show ?thesis
      using False kids prems
      by (simp add: Let_def newItem_def [symmetric] start_def [symmetric]
          no_swift_testing_add_item)
  qed
qed

lemma no_swift_testing_fold_upsert:
  "list_all no_swift_testing (snd st)
     \<Longrightarrow> list_all no_swift_testing (snd (fold upsertTestItem tcs st))"
proof (induction tcs arbitrary: st)
  case Nil
  then show ?case by simp
next
  case (Cons tc tcs)
  have "list_all no_swift_testing (snd (upsertTestItem tc (fst st, snd st)))"
    using Cons.prems by (rule no_swift_testing_upsert)
  then show ?case using Cons.IH by simp
qed

lemma no_swift_testing_removeOldTests:
  "no_swift_testing it \<Longrightarrow> removeOldTests L f it = Some it' \<Longrightarrow> no_swift_testing it'"
proof (induction it arbitrary: it')
  case (TestItem oid i l u r tgs cs)
  have "list_all no_swift_testing (List.map_filter (\<lambda>x. x) (map (removeOldTests L f) ys))"
    if "set ys \<subseteq> set cs" for ys
    using that
  proof (induction ys)
    case Nil
    then show ?case by (simp add: List.map_filter_simps)
  next
    case (Cons y ys)
    have y: "no_swift_testing y"
      using Cons.prems TestItem.prems(1) by (auto simp: list_all_iff)
    show ?case
      using Cons TestItem.IH [of y] y
      by (cases "removeOldTests L f y") (auto simp: List.map_filter_simps)
  qed
  then show ?case
    using TestItem.prems by (auto simp: Let_def split: if_splits)
qed

lemma no_swift_testing_removeOldTests_each:
  "list_all no_swift_testing coll \<Longrightarrow> list_all no_swift_testing (removeOldTests_each L f coll)"
proof (induction coll)
  case Nil
  then show ?case by (simp add: removeOldTests_each_def List.map_filter_simps)
next
  case (Cons y ys)
  then show ?case
    using no_swift_testing_removeOldTests [of y L f]
    by (cases "removeOldTests L f y") (auto simp: removeOldTests_each_def List.map_filter_simps)
qed

lemma no_swift_testing_readd:
  "list_all no_swift_testing xs \<Longrightarrow> list_all no_swift_testing coll
     \<Longrightarrow> list_all no_swift_testing (fold add_item xs coll)"
  by (induction xs arbitrary: coll) (simp_all add: no_swift_testing_add_item)

text \<open>
  Claim C10.  The upsert of an incoming item of style \<open>swift-testing\<close> returns the counter
  and the collection as they are: nothing is created, updated or inserted, for the item
  and for its descendants.  So a reconciliation pass on a catalog without an item of that
  style leaves a catalog without one.
\<close>

theorem C10_swift_testing_gate:
  "(tc_style tc = ''swift-testing'' \<longrightarrow> upsertTestItem tc (n, coll) = (n, coll))
   \<and> (list_all no_swift_testing (items testController)
      \<longrightarrow> list_all no_swift_testing (items (updateTests testController incoming filterFile)))"
proof -
  have a: "upsertTestItem tc (n, coll) = (n, coll)" if "tc_style tc = ''swift-testing''"
    using that by (cases tc) simp
  have b: "list_all no_swift_testing (items (updateTests testController incoming filterFile))"
    if ok: "list_all no_swift_testing (items testController)"
  proof -
    let ?L = "createIncomingTestLookup incoming None"
    let ?items1 = "if length (items testController) \<noteq> 0
        then removeOldTests_each ?L filterFile (items testController) else items testController"
    have "list_all no_swift_testing ?items1"
      using ok by (simp add: no_swift_testing_removeOldTests_each)
    then have "list_all no_swift_testing
        (snd (fold upsertTestItem incoming (nextItem testController, ?items1)))"
      by (simp add: no_swift_testing_fold_upsert)
    then show ?thesis
      by (simp add: updateTests_def Let_def no_swift_testing_readd)
  qed
  show ?thesis using a b by blast
qed


lemma example_controller_no_swift_testing:
  "list_all no_swift_testing (items example_controller)"
  by (simp add: example_controller_def)

theorem C10_swift_testing_gate_witness:
  "tc_style (example_incoming ! 1) = ''swift-testing''
   \<and> upsertTestItem (example_incoming ! 1) (3, items example_controller)
       = (3, items example_controller)
   \<and> list_all no_swift_testing (items example_controller)
   \<and> list_all no_swift_testing
        (items (updateTests example_controller example_incoming (Some ''/pkg/Tests/A.swift'')))"
proof -
  have s: "tc_style (example_incoming ! 1) = ''swift-testing''"
    by (simp add: example_incoming_def)
  show ?thesis
    using s example_controller_no_swift_testing
      C10_swift_testing_gate [where tc = "example_incoming ! 1" and n = 3
        and coll = "items example_controller" and testController = example_controller
        and incoming = example_incoming and filterFile = "Some ''/pkg/Tests/A.swift''"]
    by blast
qed

section \<open>Pruning scoped to a file\<close>

lemma lookup_traverse:
  "(traverse None tc dict k \<noteq> None) = (dict k \<noteq> None \<or> k \<in> set (incoming_ids tc))"
proof (induction tc arbitrary: dict)
  case (TestClass i l d s loc tgs cs)
  have "(fold (\<lambda>item dict. traverse None item dict) ys dict' k \<noteq> None)
        = (dict' k \<noteq> None \<or> k \<in> set (concat (map incoming_ids ys)))"
    if "set ys \<subseteq> set cs" for ys dict'
    using that
  proof (induction ys arbitrary: dict')
    case Nil
    then show ?case by simp
  next
    case (Cons y ys)
    then show ?case using TestClass.IH [of y] by auto
  qed
  from this [of cs] show ?case by auto
qed

lemma lookup_ids:
  "(createIncomingTestLookup incoming None k \<noteq> None)
   = (k \<in> set (concat (map incoming_ids incoming)))"
proof -
  have "(fold (traverse None) ys dict k \<noteq> None)
        = (dict k \<noteq> None \<or> k \<in> set (concat (map incoming_ids ys)))" for ys dict
  proof (induction ys arbitrary: dict)
    case Nil
    show ?case by simp
  next
    case (Cons y ys)
    show ?case using Cons [of "traverse None y dict"] lookup_traverse [of y dict k] by auto
  qed
  from this [of incoming Map.empty] show ?thesis
    by (simp add: createIncomingTestLookup_def)
qed

lemma nodes_of_removeOldTests:
  "(case removeOldTests L f it of None \<Rightarrow> [] | Some it' \<Rightarrow> nodes_of it')
   = filter (list_all (\<lambda>p. \<not> deleted L f p)) (nodes_of it)"
proof (induction it)
  case (TestItem oid i l u r tgs cs)
  let ?p = "(oid, i, l, u, r, tgs)"
  let ?keep = "list_all (\<lambda>p. \<not> deleted L f p)"
  have kids: "concat (map nodes_of (List.map_filter (\<lambda>x. x) (map (removeOldTests L f) ys)))
      = filter ?keep (concat (map nodes_of ys))"
    if "set ys \<subseteq> set cs" for ys
    using that
  proof (induction ys)
    case Nil
    then show ?case by (simp add: List.map_filter_simps)
  next
    case (Cons y ys)
    then show ?case
      using TestItem.IH [of y]
      by (cases "removeOldTests L f y") (auto simp: List.map_filter_simps)
  qed
  show ?case
  proof (cases "deleted L f ?p")
    case True
    then have "filter ?keep (nodes_of (TestItem oid i l u r tgs cs)) = []"
      by (auto simp: filter_empty_conv)
    then show ?thesis using True by (simp add: Let_def)
  next
    case False
    have "filter ?keep (map ((#) ?p) X) = map ((#) ?p) (filter ?keep X)" for X
      using False by (induction X) auto
    then show ?thesis
      using False kids [of cs] by (simp add: Let_def)
  qed
qed

lemma nodes_removeOldTests_each:
  "nodes (removeOldTests_each L f coll) = filter (list_all (\<lambda>p. \<not> deleted L f p)) (nodes coll)"
proof (induction coll)
  case Nil
  show ?case by (simp add: nodes_def removeOldTests_each_def List.map_filter_simps)
next
  case (Cons y ys)
  then show ?case
    using nodes_of_removeOldTests [of L f y]
    by (cases "removeOldTests L f y")
      (auto simp: nodes_def removeOldTests_each_def List.map_filter_simps)
qed

lemma nodes_pruned:
  "nodes (pruned c incoming f)
   = filter (list_all (\<lambda>p. \<not> deleted (createIncomingTestLookup incoming None) f p)) (nodes (items c))"
proof (cases "items c")
  case Nil
  then show ?thesis by (simp add: pruned_def nodes_def)
next
  case (Cons y ys)
  then show ?thesis by (simp add: pruned_def nodes_removeOldTests_each)
qed

text \<open>
  What the pruning phase does with the filter file \<open>A\<close>.  It deletes the items whose id is
  not among the incoming ids and whose uri is \<open>A\<close>, each with everything below it, whatever
  the files of the items below.  The nodes that are left are the nodes with no such item on
  the way from the top level down to them, in their order and with their properties as
  they were.  So an item of another file stays, unaltered, when no item above it is
  deleted; in particular when no item above it lies in \<open>A\<close>.
\<close>

lemma pruned_nodes:
  "nodes (pruned testController incoming (Some A))
     = filter (list_all (\<lambda>(oid, i, l, u, r, tgs).
                 \<not> (i \<notin> set (concat (map incoming_ids incoming)) \<and> u = Some A)))
         (nodes (items testController))
   \<and> (node \<in> set (nodes (items testController))
        \<and> list_all (\<lambda>(oid, i, l, u, r, tgs). u \<noteq> Some A) node
      \<longrightarrow> node \<in> set (nodes (pruned testController incoming (Some A))))"
proof -
  have d: "(\<lambda>p. \<not> deleted (createIncomingTestLookup incoming None) (Some A) p)
      = (\<lambda>(oid, i, l, u, r, tgs). \<not> (i \<notin> set (concat (map incoming_ids incoming)) \<and> u = Some A))"
    using lookup_ids [of incoming] by (auto simp: fun_eq_iff)
  have a: "nodes (pruned testController incoming (Some A))
     = filter (list_all (\<lambda>(oid, i, l, u, r, tgs).
                 \<not> (i \<notin> set (concat (map incoming_ids incoming)) \<and> u = Some A)))
         (nodes (items testController))"
    by (simp add: nodes_pruned d)
  have b: "list_all (\<lambda>(oid, i, l, u, r, tgs).
                 \<not> (i \<notin> set (concat (map incoming_ids incoming)) \<and> u = Some A)) node"
    if "list_all (\<lambda>(oid, i, l, u, r, tgs). u \<noteq> Some A) node"
    using that by (induction node) auto
  show ?thesis using a b by auto
qed

text \<open>
  Claim C5.  The claim asks that a pass scoped to the file \<open>A\<close> neither removes nor alters
  an item that lies in another file.  In the catalog of the example the class \<open>CTests\<close> of
  \<open>A.swift\<close> has the test \<open>testB\<close> in an extension in \<open>B.swift\<close>; the snapshot holds
  \<open>A.swift\<close> after the class was renamed.  The pass scoped to \<open>A.swift\<close> deletes the class
  from the collection that holds it, and \<open>testB\<close> goes with it: its node is in the catalog
  before the pass, and neither in the pruned catalog nor in the catalog after the pass.
  The test of the condition on the uri, made for each item by itself, keeps \<open>testB\<close> from
  being deleted on its own account, and does not keep it from being deleted with the item
  above it.
\<close>

theorem C5_item_of_other_file_removed:
  "example_node_B \<in> set (nodes (items example_controller))
   \<and> ti_uri (ti_children (items example_controller ! 0) ! 1) = Some ''/pkg/Tests/B.swift''
   \<and> example_node_B \<notin> set (nodes (pruned example_controller example_incoming
                                   (Some ''/pkg/Tests/A.swift'')))
   \<and> nodes (pruned example_controller example_incoming (Some ''/pkg/Tests/A.swift'')) = []
   \<and> ''PackageTests.CTests/testB''
       \<notin> set (map (\<lambda>node. fst (snd (last node)))
                (nodes (items (updateTests example_controller example_incoming
                                 (Some ''/pkg/Tests/A.swift'')))))"
  by (simp add: example_controller_def example_incoming_def example_node_B_def nodes_def
      pruned_def updateTests_def removeOldTests_each_def createIncomingTestLookup_def
      List.map_filter_simps get_item_def createTestItem_def Let_def)

section \<open>Collections keyed by id\<close>

lemma get_item_Some: "get_item coll k = Some it \<Longrightarrow> ti_id it = k \<and> it \<in> set coll"
  by (induction coll) (auto simp: get_item_def split: if_splits)

lemma get_item_None: "(get_item coll k = None) = (k \<notin> ti_id ` set coll)"
  by (induction coll) (auto simp: get_item_def)

lemma get_item_unique:
  "distinct (map ti_id coll) \<Longrightarrow> y \<in> set coll \<Longrightarrow> get_item coll (ti_id y) = Some y"
  by (induction coll) (auto simp: get_item_def)

lemma add_item_new: "ti_id x \<notin> ti_id ` set coll \<Longrightarrow> add_item x coll = coll @ [x]"
  by (induction coll) auto

lemma add_item_map:
  "distinct (map ti_id coll) \<Longrightarrow> ti_id x \<in> ti_id ` set coll
     \<Longrightarrow> add_item x coll = map (\<lambda>y. if ti_id y = ti_id x then x else y) coll"
proof (induction coll)
  case Nil
  then show ?case by simp
next
  case (Cons y ys)
  show ?case
  proof (cases "ti_id y = ti_id x")
    case True
    then have "ti_id x \<notin> ti_id ` set ys" using Cons.prems by auto
    then have "map (\<lambda>y. if ti_id y = ti_id x then x else y) ys = ys"
      by (intro map_idI) (metis imageI)
    then show ?thesis using True by simp
  next
    case False
    then show ?thesis using Cons by auto
  qed
qed

lemma get_item_add_item:
  "get_item (add_item x coll) k = (if k = ti_id x then Some x else get_item coll k)"
  by (induction coll) (auto simp: get_item_def)

lemma ids_add_item:
  "map ti_id (add_item x coll)
   = (if ti_id x \<in> ti_id ` set coll then map ti_id coll else map ti_id coll @ [ti_id x])"
  by (induction coll) auto

lemma set_add_item: "set (add_item x coll) \<subseteq> insert x (set coll)"
  by (induction coll) auto

lemma distinct_add_item: "distinct (map ti_id coll) \<Longrightarrow> distinct (map ti_id (add_item x coll))"
  by (simp add: ids_add_item)

lemma wf_items_add_item:
  "wf_items coll \<Longrightarrow> wf_item x \<Longrightarrow> wf_items (add_item x coll)"
  using set_add_item [of x coll]
  by (auto simp: wf_items_def distinct_add_item list_all_iff)

lemma wf_item_children: "wf_item it = wf_items (ti_children it)"
  by (cases it) (simp add: wf_items_def)

lemma wf_items_member: "wf_items coll \<Longrightarrow> it \<in> set coll \<Longrightarrow> wf_items (ti_children it)"
proof -
  assume "wf_items coll" and "it \<in> set coll"
  then have "wf_item it" by (simp add: wf_items_def list_all_iff)
  then show ?thesis by (simp only: wf_item_children)
qed

lemma add_item_same:
  assumes d: "distinct (map ti_id coll)" and x: "x \<in> set coll"
  shows "add_item x coll = coll"
proof -
  have "map (\<lambda>y. if ti_id y = ti_id x then x else y) coll = coll"
  proof (intro map_idI)
    fix y assume y: "y \<in> set coll"
    show "(if ti_id y = ti_id x then x else y) = y"
    proof (cases "ti_id y = ti_id x")
      case True
      have "get_item coll (ti_id y) = Some y" using d y by (rule get_item_unique)
      moreover have "get_item coll (ti_id x) = Some x" using d x by (rule get_item_unique)
      ultimately have "x = y" using True by (metis option.inject)
      then show ?thesis by simp
    next
      case False
      then show ?thesis by simp
    qed
  qed
  moreover have "ti_id x \<in> ti_id ` set coll" using x by (rule imageI)
  ultimately show ?thesis using add_item_map [OF d, of x] by simp
qed

lemma readd_same:
  "distinct (map ti_id coll) \<Longrightarrow> set xs \<subseteq> set coll \<Longrightarrow> fold add_item xs coll = coll"
proof (induction xs)
  case Nil
  show ?case by simp
next
  case (Cons x xs)
  then have "add_item x coll = coll" by (intro add_item_same) auto
  then show ?case using Cons by simp
qed

section \<open>The upsert, step by step\<close>

text \<open>The two cases of an upsert that is not gated: the item exists, or it is created.\<close>

lemma upsert_gated:
  "tc_style tc = ''swift-testing'' \<Longrightarrow> upsertTestItem tc st = st"
  by (cases tc; cases st) simp

lemma upsert_existing:
  assumes "tc_style tc \<noteq> ''swift-testing''" and "get_item coll (tc_id tc) = Some it"
  shows "upsertTestItem tc (n, coll) =
     (fst (fold upsertTestItem (tc_children tc) (n, ti_children it)),
      add_item (TestItem (ti_oid it) (ti_id it) (tc_label tc) (ti_uri it)
                  (map_option range (tc_location tc)) (tc_style tc # map stripDot (tc_tags tc))
                  (snd (fold upsertTestItem (tc_children tc) (n, ti_children it)))) coll)"
  using assms by (cases tc) (simp add: Let_def)

lemma upsert_created:
  assumes "tc_style tc \<noteq> ''swift-testing''" and "get_item coll (tc_id tc) = None"
  shows "upsertTestItem tc (n, coll) =
     (fst (fold upsertTestItem (tc_children tc) (Suc n, [])),
      coll @ [TestItem n (tc_id tc) (tc_label tc) (map_option fsPath (tc_location tc))
                  (map_option range (tc_location tc)) (tc_style tc # map stripDot (tc_tags tc))
                  (snd (fold upsertTestItem (tc_children tc) (Suc n, [])))])"
proof -
  have "tc_id tc \<notin> ti_id ` set coll"
    using assms(2) by (simp add: get_item_None)
  then show ?thesis
    using assms by (cases tc) (simp add: Let_def createTestItem_def add_item_new)
qed

declare upsertTestItem.simps [simp del]

lemma fold_upsert_invariant:
  assumes step: "\<And>tc n coll. tc \<in> set tcs \<Longrightarrow> P coll \<Longrightarrow> P (snd (upsertTestItem tc (n, coll)))"
    and "P (snd st)"
  shows "P (snd (fold upsertTestItem tcs st))"
  using assms
proof (induction tcs arbitrary: st)
  case Nil
  then show ?case by simp
next
  case (Cons tc tcs)
  have "P (snd (upsertTestItem tc (fst st, snd st)))"
    using Cons.prems(1) [of tc "snd st" "fst st"] Cons.prems(2) by simp
  then show ?case using Cons by simp
qed

lemma wf_items_upsert:
  "wf_items coll \<Longrightarrow> wf_items (snd (upsertTestItem tc (n, coll)))"
proof (induction tc arbitrary: n coll)
  case (TestClass i l d s loc tgs cs)
  let ?tc = "TestClass i l d s loc tgs cs"
  have kids: "wf_items (snd (fold upsertTestItem cs st))" if w: "wf_items (snd st)" for st
    by (rule fold_upsert_invariant [where P = wf_items, OF _ w]) (rule TestClass.IH)
  show ?case
  proof (cases "s = ''swift-testing''")
    case True
    then show ?thesis using TestClass.prems by (simp add: upsert_gated)
  next
    case False
    show ?thesis
    proof (cases "get_item coll i")
      case None
      have res: "snd (upsertTestItem ?tc (n, coll)) =
          coll @ [TestItem n i l (map_option fsPath loc) (map_option range loc)
                    (s # map stripDot tgs) (snd (fold upsertTestItem cs (Suc n, [])))]"
        using upsert_created [of ?tc coll n] False None by simp
      have "wf_items []" by (simp add: wf_items_def)
      then have "wf_items (snd (fold upsertTestItem cs (Suc n, [])))"
        by (simp add: kids)
      moreover have "i \<notin> ti_id ` set coll" using None by (simp add: get_item_None)
      ultimately show ?thesis
        using TestClass.prems unfolding res by (auto simp: wf_items_def)
    next
      case (Some it)
      have res: "snd (upsertTestItem ?tc (n, coll)) =
          add_item (TestItem (ti_oid it) (ti_id it) l (ti_uri it) (map_option range loc)
                      (s # map stripDot tgs) (snd (fold upsertTestItem cs (n, ti_children it)))) coll"
        using upsert_existing [of ?tc coll it n] False Some by simp
      from Some have "wf_items (ti_children it)"
        using TestClass.prems get_item_Some wf_items_member by blast
      then have "wf_items (snd (fold upsertTestItem cs (n, ti_children it)))"
        by (simp add: kids)
      then have "wf_item (TestItem (ti_oid it) (ti_id it) l (ti_uri it) (map_option range loc)
                      (s # map stripDot tgs) (snd (fold upsertTestItem cs (n, ti_children it))))"
        by (simp add: wf_items_def)
      then show ?thesis
        using TestClass.prems unfolding res by (rule wf_items_add_item [rotated])
    qed
  qed
qed

lemma wf_items_fold_upsert:
  assumes "wf_items (snd st)"
  shows "wf_items (snd (fold upsertTestItem tcs st))"
  by (rule fold_upsert_invariant [where P = wf_items, OF _ assms]) (rule wf_items_upsert)

lemma present_upsert:
  "present x coll \<Longrightarrow> present x (snd (upsertTestItem tc (n, coll)))"
proof (induction tc arbitrary: n coll x)
  case (TestClass i l d s loc tgs cs)
  let ?tc = "TestClass i l d s loc tgs cs"
  have kids: "present c (snd (fold upsertTestItem cs st))" if w: "present c (snd st)" for st c
    by (rule fold_upsert_invariant [where P = "present c", OF _ w]) (rule TestClass.IH)
  obtain i' l' d' s' loc' tgs' cs' where x: "x = TestClass i' l' d' s' loc' tgs' cs'"
    by (cases x)
  show ?case
  proof (cases "s = ''swift-testing'' \<or> s' = ''swift-testing''")
    case True
    then show ?thesis using TestClass.prems x by (auto simp: upsert_gated)
  next
    case False
    from TestClass.prems x False obtain itx where
      itx: "get_item coll i' = Some itx" "list_all (\<lambda>c. present c (ti_children itx)) cs'"
      by (auto split: option.splits)
    show ?thesis
    proof (cases "get_item coll i")
      case None
      then have "i' \<noteq> i" using itx by auto
      have "get_item (coll @ [y]) i' = Some itx" for y
        using itx(1) by (induction coll) (auto simp: get_item_def)
      moreover have "snd (upsertTestItem ?tc (n, coll)) =
          coll @ [TestItem n i l (map_option fsPath loc) (map_option range loc)
                    (s # map stripDot tgs) (snd (fold upsertTestItem cs (Suc n, [])))]"
        using upsert_created [of ?tc coll n] False None by simp
      ultimately show ?thesis
        using x itx(2) by simp
    next
      case (Some it)
      let ?ks = "snd (fold upsertTestItem cs (n, ti_children it))"
      let ?it' = "TestItem (ti_oid it) (ti_id it) l (ti_uri it) (map_option range loc)
                    (s # map stripDot tgs) ?ks"
      have id: "ti_id it = i" using Some get_item_Some by blast
      have res: "snd (upsertTestItem ?tc (n, coll)) = add_item ?it' coll"
        using upsert_existing [of ?tc coll it n] False Some by simp
      show ?thesis
      proof (cases "i' = i")
        case True
        then have "itx = it" using itx Some by simp
        then have "list_all (\<lambda>c. present c ?ks) cs'"
          using itx(2) kids by (auto simp: list_all_iff)
        then show ?thesis
          using res x True id by (simp add: get_item_add_item)
      next
        case False
        then show ?thesis
          using res x id itx by (simp add: get_item_add_item)
      qed
    qed
  qed
qed

lemma present_fold_upsert:
  assumes "list_all (\<lambda>x. present x (snd st)) xs"
  shows "list_all (\<lambda>x. present x (snd (fold upsertTestItem tcs st))) xs"
  by (rule fold_upsert_invariant [where P = "\<lambda>coll. list_all (\<lambda>x. present x coll) xs", OF _ assms])
    (simp add: list_all_iff present_upsert)


section \<open>A second pass over items that are present\<close>

lemma upserted_as_Cons:
  "upserted_as k (t # tcs)
   = (if tc_style t \<noteq> ''swift-testing'' \<and> tc_id t = k then t # upserted_as k tcs
      else upserted_as k tcs)"
  by (simp add: upserted_as_def)

lemma upserted_as_append: "upserted_as k (xs @ ys) = upserted_as k xs @ upserted_as k ys"
  by (simp add: upserted_as_def)

lemma children_under_append:
  "children_under k (xs @ ys) = children_under k xs @ children_under k ys"
  by (simp add: children_under_def upserted_as_append)

lemma upserted_as_member:
  "t \<in> set tcs \<Longrightarrow> tc_style t \<noteq> ''swift-testing'' \<Longrightarrow> t \<in> set (upserted_as (tc_id t) tcs)"
  by (simp add: upserted_as_def)

lemma size_tc_children: "size_list size (tc_children t) < size t"
  by (cases t) simp

lemma size_children_under_le: "size_list size (children_under k tcs) \<le> size_list size tcs"
proof (induction tcs)
  case Nil
  show ?case by (simp add: children_under_def upserted_as_def)
next
  case (Cons t tcs)
  then show ?case
    using size_tc_children [of t]
    by (auto simp: children_under_def upserted_as_Cons)
qed

lemma size_children_under:
  "t \<in> set tcs \<Longrightarrow> tc_style t \<noteq> ''swift-testing''
     \<Longrightarrow> size_list size (children_under (tc_id t) tcs) < size_list size tcs"
proof (induction tcs)
  case Nil
  then show ?case by simp
next
  case (Cons u tcs)
  show ?case
  proof (cases "tc_style u \<noteq> ''swift-testing'' \<and> tc_id u = tc_id t")
    case True
    then show ?thesis
      using size_tc_children [of u] size_children_under_le [of "tc_id t" tcs]
      by (simp add: children_under_def upserted_as_Cons)
  next
    case False
    then have "t \<in> set tcs" using Cons.prems by auto
    then show ?thesis
      using Cons False by (auto simp: children_under_def upserted_as_Cons)
  qed
qed

lemma present_upserted:
  assumes "tc_style t \<noteq> ''swift-testing''"
  shows "present t coll
     = (\<exists>it. get_item coll (tc_id t) = Some it
             \<and> list_all (\<lambda>c. present c (ti_children it)) (tc_children t))"
  using assms by (cases t) (auto split: option.splits)

lemma updated_by_simps:
  "ti_id (updated_by t it) = ti_id it"
  "ti_oid (updated_by t it) = ti_oid it"
  "ti_uri (updated_by t it) = ti_uri it"
  "ti_children (updated_by t it) = snd (fold upsertTestItem (tc_children t) (0, ti_children it))"
  by (simp_all add: updated_by_def)

lemma ti_id_fold_updated_by: "ti_id (fold updated_by us it) = ti_id it"
  by (induction us arbitrary: it) (simp_all add: updated_by_simps)

text \<open>When every incoming item that is upserted finds its item, nothing is created: the
  counter stays and every item of the collection is updated by the incoming items of its
  id, in their order.\<close>

lemma upsert_present:
  "wf_items coll \<Longrightarrow> list_all (\<lambda>t. present t coll) tcs
     \<Longrightarrow> fold upsertTestItem tcs (n, coll)
         = (n, map (\<lambda>it. fold updated_by (upserted_as (ti_id it) tcs) it) coll)"
proof (induction tcs arbitrary: n coll rule: measure_induct_rule [where f = "size_list size"])
  case (less tcs)
  show ?case
  proof (cases tcs)
    case Nil
    then show ?thesis by (simp add: upserted_as_def)
  next
    case (Cons t rest)
    have rest: "fold upsertTestItem rest (m, c)
         = (m, map (\<lambda>it. fold updated_by (upserted_as (ti_id it) rest) it) c)"
      if "wf_items c" "list_all (\<lambda>t. present t c) rest" for m c
      using less.IH [of rest c m] that Cons by simp
    show ?thesis
    proof (cases "tc_style t = ''swift-testing''")
      case True
      then show ?thesis
        using Cons less.prems rest [of coll n]
        by (simp add: upsert_gated upserted_as_Cons)
    next
      case False
      from less.prems(2) Cons False obtain it0 where
        g: "get_item coll (tc_id t) = Some it0"
        and pc: "list_all (\<lambda>c. present c (ti_children it0)) (tc_children t)"
        by (auto simp: present_upserted)
      have id0: "ti_id it0 = tc_id t" and in0: "it0 \<in> set coll"
        using g get_item_Some by blast+
      have wf0: "wf_items (ti_children it0)"
        using less.prems(1) in0 by (rule wf_items_member)
      have "size_list size (tc_children t) < size_list size tcs"
        using Cons size_tc_children [of t] by simp
      then have kids: "fold upsertTestItem (tc_children t) (m, ti_children it0)
          = (m, map (\<lambda>it. fold updated_by (upserted_as (ti_id it) (tc_children t)) it)
                  (ti_children it0))" for m
        using less.IH [of "tc_children t" "ti_children it0" m] wf0 pc by simp
      have dist: "distinct (map ti_id coll)"
        using less.prems(1) by (simp add: wf_items_def)
      have step: "upsertTestItem t (n, coll) = (n, add_item (updated_by t it0) coll)"
        using upsert_existing [OF False g, of n] kids [of n] kids [of 0]
        by (simp add: updated_by_def)
      have "add_item (updated_by t it0) coll
          = map (\<lambda>y. if ti_id y = ti_id (updated_by t it0) then updated_by t it0 else y) coll"
        using dist in0 by (intro add_item_map) (auto simp: updated_by_simps)
      also have "\<dots> = map (\<lambda>y. if ti_id y = tc_id t then updated_by t y else y) coll"
      proof (intro map_cong refl)
        fix y assume y: "y \<in> set coll"
        show "(if ti_id y = ti_id (updated_by t it0) then updated_by t it0 else y)
            = (if ti_id y = tc_id t then updated_by t y else y)"
        proof (cases "ti_id y = tc_id t")
          case True
          then have "get_item coll (tc_id t) = Some y"
            using get_item_unique [OF dist y] by simp
          then have "y = it0" using g by simp
          then show ?thesis using True id0 by (simp add: updated_by_simps)
        next
          case False
          then show ?thesis using id0 by (simp add: updated_by_simps)
        qed
      qed
      finally have step': "upsertTestItem t (n, coll)
          = (n, map (\<lambda>y. if ti_id y = tc_id t then updated_by t y else y) coll)"
        using step by simp
      let ?c1 = "map (\<lambda>y. if ti_id y = tc_id t then updated_by t y else y) coll"
      have c1: "?c1 = snd (upsertTestItem t (n, coll))" using step' by simp
      have wf1: "wf_items ?c1"
        unfolding c1 using less.prems(1) by (rule wf_items_upsert)
      have pr1: "list_all (\<lambda>t. present t ?c1) rest"
        unfolding c1 using less.prems(2) Cons by (simp add: list_all_iff present_upsert)
      have "fold upsertTestItem tcs (n, coll) = fold upsertTestItem rest (n, ?c1)"
        using Cons step' by simp
      also have "\<dots> = (n, map (\<lambda>it. fold updated_by (upserted_as (ti_id it) rest) it) ?c1)"
        using wf1 pr1 by (rule rest)
      also have "map (\<lambda>it. fold updated_by (upserted_as (ti_id it) rest) it) ?c1
          = map (\<lambda>it. fold updated_by (upserted_as (ti_id it) tcs) it) coll"
        using False Cons
        by (auto simp: upserted_as_Cons updated_by_simps)
      finally show ?thesis .
    qed
  qed
qed

lemma upsert_present_counter:
  assumes "wf_items coll" and "list_all (\<lambda>t. present t coll) tcs"
  shows "fold upsertTestItem tcs (n, coll) = (n, snd (fold upsertTestItem tcs (0, coll)))"
  using upsert_present [OF assms, of n] upsert_present [OF assms, of 0] by simp


section \<open>Reconciled collections are left as they are\<close>

lemma fold_updated_by:
  "us \<noteq> [] \<Longrightarrow> wf_items (ti_children it)
     \<Longrightarrow> list_all (\<lambda>c. present c (ti_children it)) (concat (map tc_children us))
     \<Longrightarrow> fold updated_by us it
         = TestItem (ti_oid it) (ti_id it) (tc_label (last us)) (ti_uri it)
             (map_option range (tc_location (last us)))
             (tc_style (last us) # map stripDot (tc_tags (last us)))
             (snd (fold upsertTestItem (concat (map tc_children us)) (0, ti_children it)))"
proof (induction us arbitrary: it)
  case Nil
  then show ?case by simp
next
  case (Cons u us)
  show ?case
  proof (cases "us = []")
    case True
    then show ?thesis by (simp add: updated_by_def)
  next
    case False
    let ?it1 = "updated_by u it"
    have pu: "list_all (\<lambda>c. present c (ti_children it)) (tc_children u)"
      and pr: "list_all (\<lambda>c. present c (ti_children it)) (concat (map tc_children us))"
      using Cons.prems(3) by simp_all
    have first: "fold upsertTestItem (tc_children u) (0, ti_children it) = (0, ti_children ?it1)"
      using upsert_present_counter [OF Cons.prems(2) pu, of 0]
      by (simp add: updated_by_simps)
    have wf1: "wf_items (ti_children ?it1)"
      using wf_items_fold_upsert [of "(0, ti_children it)" "tc_children u"] Cons.prems(2)
      by (simp add: updated_by_simps)
    have pr1: "list_all (\<lambda>c. present c (ti_children ?it1)) (concat (map tc_children us))"
      using present_fold_upsert [of "(0, ti_children it)" "concat (map tc_children us)" "tc_children u"] pr
      by (simp add: updated_by_simps)
    have app: "snd (fold upsertTestItem (concat (map tc_children (u # us))) (0, ti_children it))
        = snd (fold upsertTestItem (concat (map tc_children us)) (0, ti_children ?it1))"
      using first by simp
    have lst: "last (u # us) = last us" using False by simp
    have "fold updated_by (u # us) it = fold updated_by us ?it1" by simp
    also have "\<dots> = TestItem (ti_oid ?it1) (ti_id ?it1) (tc_label (last us)) (ti_uri ?it1)
             (map_option range (tc_location (last us)))
             (tc_style (last us) # map stripDot (tc_tags (last us)))
             (snd (fold upsertTestItem (concat (map tc_children us)) (0, ti_children ?it1)))"
      using False wf1 pr1 by (rule Cons.IH)
    finally have F: "fold updated_by (u # us) it
        = TestItem (ti_oid ?it1) (ti_id ?it1) (tc_label (last us)) (ti_uri ?it1)
             (map_option range (tc_location (last us)))
             (tc_style (last us) # map stripDot (tc_tags (last us)))
             (snd (fold upsertTestItem (concat (map tc_children us)) (0, ti_children ?it1)))" .
    show ?thesis
      unfolding F app lst by (simp add: updated_by_simps(1-3))
  qed
qed

lemma reconciled_elim:
  assumes "reconciled tcs coll" and "t \<in> set tcs" and "tc_style t \<noteq> ''swift-testing''"
  obtains it where "get_item coll (tc_id t) = Some it"
    and "carries (last (upserted_as (tc_id t) tcs)) it"
    and "reconciled (children_under (tc_id t) tcs) (ti_children it)"
  using assms by (auto elim: reconciled.cases)

lemma reconciled_present:
  "reconciled tcs coll \<Longrightarrow> list_all (\<lambda>t. present t coll) tcs"
proof (induction tcs arbitrary: coll rule: measure_induct_rule [where f = "size_list size"])
  case (less tcs)
  have "present t coll" if t: "t \<in> set tcs" for t
  proof (cases "tc_style t = ''swift-testing''")
    case True
    then show ?thesis by (cases t) simp
  next
    case False
    from less.prems t False obtain it where
      g: "get_item coll (tc_id t) = Some it"
      and r: "reconciled (children_under (tc_id t) tcs) (ti_children it)"
      by (rule reconciled_elim)
    have "list_all (\<lambda>c. present c (ti_children it)) (children_under (tc_id t) tcs)"
      using less.IH [OF size_children_under [OF t False] r] .
    moreover have "set (tc_children t) \<subseteq> set (children_under (tc_id t) tcs)"
      using upserted_as_member [OF t False] by (auto simp: children_under_def)
    ultimately have "list_all (\<lambda>c. present c (ti_children it)) (tc_children t)"
      by (auto simp: list_all_iff)
    then show ?thesis using g False by (auto simp: present_upserted)
  qed
  then show ?case by (simp add: list_all_iff)
qed

lemma carries_eq:
  "carries u it \<Longrightarrow>
     TestItem (ti_oid it) (ti_id it) (tc_label u) (ti_uri it) (map_option range (tc_location u))
       (tc_style u # map stripDot (tc_tags u)) (ti_children it) = it"
  by (cases it) (simp add: carries_def)

text \<open>A pass over a reconciled collection creates nothing and changes nothing.\<close>

lemma upsert_reconciled:
  "wf_items coll \<Longrightarrow> reconciled tcs coll \<Longrightarrow> fold upsertTestItem tcs (n, coll) = (n, coll)"
proof (induction tcs arbitrary: n coll rule: measure_induct_rule [where f = "size_list size"])
  case (less tcs)
  note pres = reconciled_present [OF less.prems(2)]
  have dist: "distinct (map ti_id coll)"
    using less.prems(1) by (simp add: wf_items_def)
  have fixed: "fold updated_by (upserted_as (ti_id it) tcs) it = it" if it: "it \<in> set coll" for it
  proof (cases "upserted_as (ti_id it) tcs = []")
    case True
    then show ?thesis by simp
  next
    case False
    let ?us = "upserted_as (ti_id it) tcs"
    from False obtain t where t: "t \<in> set ?us" by (cases ?us) auto
    then have tin: "t \<in> set tcs" and st: "tc_style t \<noteq> ''swift-testing''"
      and tid: "tc_id t = ti_id it"
      by (auto simp: upserted_as_def)
    from less.prems(2) tin st obtain it' where
      g: "get_item coll (tc_id t) = Some it'"
      and c: "carries (last (upserted_as (tc_id t) tcs)) it'"
      and r: "reconciled (children_under (tc_id t) tcs) (ti_children it')"
      by (rule reconciled_elim)
    have same: "it' = it"
      using g get_item_unique [OF dist it] tid by simp
    have wfc: "wf_items (ti_children it)"
      using less.prems(1) it by (rule wf_items_member)
    have rc: "reconciled (children_under (ti_id it) tcs) (ti_children it)"
      using r same tid by simp
    have kids: "fold upsertTestItem (children_under (ti_id it) tcs) (0, ti_children it)
        = (0, ti_children it)"
      using less.IH [OF size_children_under [OF tin st] wfc, of 0] rc tid by simp
    have "fold updated_by ?us it
        = TestItem (ti_oid it) (ti_id it) (tc_label (last ?us)) (ti_uri it)
             (map_option range (tc_location (last ?us)))
             (tc_style (last ?us) # map stripDot (tc_tags (last ?us)))
             (snd (fold upsertTestItem (concat (map tc_children ?us)) (0, ti_children it)))"
      using False wfc reconciled_present [OF rc]
      by (intro fold_updated_by) (simp_all add: children_under_def)
    also have "\<dots> = TestItem (ti_oid it) (ti_id it) (tc_label (last ?us)) (ti_uri it)
             (map_option range (tc_location (last ?us)))
             (tc_style (last ?us) # map stripDot (tc_tags (last ?us))) (ti_children it)"
      using kids by (simp add: children_under_def)
    also have "\<dots> = it"
      using c same tid by (intro carries_eq) simp
    finally show ?thesis .
  qed
  have "map (\<lambda>it. fold updated_by (upserted_as (ti_id it) tcs) it) coll = coll"
    by (intro map_idI fixed)
  then show ?case
    using upsert_present [OF less.prems(1) pres, of n] by simp
qed

section \<open>A pass reconciles the collection\<close>

lemma reconciled_Nil: "reconciled [] coll"
  by (rule reconciled.intros) simp

lemma reconciled_snoc:
  assumes rec: "reconciled tcs coll"
    and kids: "\<And>xs c m. reconciled xs c
       \<Longrightarrow> reconciled (xs @ tc_children y) (snd (fold upsertTestItem (tc_children y) (m, c)))"
  shows "reconciled (tcs @ [y]) (snd (upsertTestItem y (n, coll)))"
proof (cases "tc_style y = ''swift-testing''")
  case True
  have u: "upserted_as k (tcs @ [y]) = upserted_as k tcs" for k
    using True by (simp add: upserted_as_def)
  have c: "children_under k (tcs @ [y]) = children_under k tcs" for k
    by (simp add: children_under_def u)
  show ?thesis
  proof (rule reconciled.intros)
    fix t assume "t \<in> set (tcs @ [y])" and st: "tc_style t \<noteq> ''swift-testing''"
    then have "t \<in> set tcs" using True by auto
    from rec this st obtain it where "get_item coll (tc_id t) = Some it"
      "carries (last (upserted_as (tc_id t) tcs)) it"
      "reconciled (children_under (tc_id t) tcs) (ti_children it)"
      by (rule reconciled_elim)
    then show "\<exists>it. get_item (snd (upsertTestItem y (n, coll))) (tc_id t) = Some it
        \<and> carries (last (upserted_as (tc_id t) (tcs @ [y]))) it
        \<and> reconciled (children_under (tc_id t) (tcs @ [y])) (ti_children it)"
      using True by (auto simp: upsert_gated u c)
  qed
next
  case False
  define cs0 where "cs0 = (case get_item coll (tc_id y) of Some it \<Rightarrow> ti_children it | None \<Rightarrow> [])"
  define m where "m = (case get_item coll (tc_id y) of Some it \<Rightarrow> n | None \<Rightarrow> Suc n)"
  define ks where "ks = snd (fold upsertTestItem (tc_children y) (m, cs0))"
  obtain it' where
    g': "get_item (snd (upsertTestItem y (n, coll))) (tc_id y) = Some it'"
    and other: "\<And>k. k \<noteq> tc_id y
        \<Longrightarrow> get_item (snd (upsertTestItem y (n, coll))) k = get_item coll k"
    and c': "carries y it'" and k': "ti_children it' = ks"
  proof (cases "get_item coll (tc_id y)")
    case None
    let ?it = "TestItem n (tc_id y) (tc_label y) (map_option fsPath (tc_location y))
                  (map_option range (tc_location y)) (tc_style y # map stripDot (tc_tags y))
                  (snd (fold upsertTestItem (tc_children y) (Suc n, [])))"
    have res: "snd (upsertTestItem y (n, coll)) = coll @ [?it]"
      using upsert_created [OF False None, of n] by simp
    have app: "get_item (coll @ [?it]) k = (if k = tc_id y then Some ?it else get_item coll k)" for k
      using None
      by (induction coll) (auto simp: get_item_def split: if_splits)
    show ?thesis
      using that [of ?it] None
      by (simp add: res app carries_def ks_def m_def cs0_def)
  next
    case (Some it)
    let ?it = "TestItem (ti_oid it) (ti_id it) (tc_label y) (ti_uri it)
                  (map_option range (tc_location y)) (tc_style y # map stripDot (tc_tags y))
                  (snd (fold upsertTestItem (tc_children y) (n, ti_children it)))"
    have res: "snd (upsertTestItem y (n, coll)) = add_item ?it coll"
      using upsert_existing [OF False Some, of n] by simp
    have id: "ti_id it = tc_id y" using Some get_item_Some by blast
    show ?thesis
      using that [of ?it] Some id
      by (simp add: res get_item_add_item carries_def ks_def m_def cs0_def)
  qed
  have rec0: "reconciled (children_under (tc_id y) tcs) cs0"
  proof (cases "upserted_as (tc_id y) tcs = []")
    case True
    then show ?thesis by (simp add: children_under_def reconciled_Nil)
  next
    case False
    then obtain t where "t \<in> set (upserted_as (tc_id y) tcs)"
      by (cases "upserted_as (tc_id y) tcs") auto
    then have tin: "t \<in> set tcs" and st: "tc_style t \<noteq> ''swift-testing''"
      and tid: "tc_id t = tc_id y"
      by (auto simp: upserted_as_def)
    from rec tin st obtain it where "get_item coll (tc_id t) = Some it"
      "reconciled (children_under (tc_id t) tcs) (ti_children it)"
      by (rule reconciled_elim)
    then show ?thesis by (simp add: cs0_def tid)
  qed
  have recks: "reconciled (children_under (tc_id y) tcs @ tc_children y) ks"
    unfolding ks_def using rec0 by (rule kids)
  have uy: "upserted_as (tc_id y) (tcs @ [y]) = upserted_as (tc_id y) tcs @ [y]"
    using False by (simp add: upserted_as_def)
  have cy: "children_under (tc_id y) (tcs @ [y]) = children_under (tc_id y) tcs @ tc_children y"
    by (simp add: children_under_def uy)
  have uo: "upserted_as k (tcs @ [y]) = upserted_as k tcs" if "k \<noteq> tc_id y" for k
    using that by (auto simp: upserted_as_def)
  have co: "children_under k (tcs @ [y]) = children_under k tcs" if "k \<noteq> tc_id y" for k
    using that by (simp add: children_under_def uo)
  show ?thesis
  proof (rule reconciled.intros)
    fix t assume t: "t \<in> set (tcs @ [y])" and st: "tc_style t \<noteq> ''swift-testing''"
    show "\<exists>it. get_item (snd (upsertTestItem y (n, coll))) (tc_id t) = Some it
        \<and> carries (last (upserted_as (tc_id t) (tcs @ [y]))) it
        \<and> reconciled (children_under (tc_id t) (tcs @ [y])) (ti_children it)"
    proof (cases "tc_id t = tc_id y")
      case True
      then show ?thesis
        using g' c' k' recks by (simp add: uy cy)
    next
      case False
      then have "t \<in> set tcs" using t by auto
      from rec this st obtain it where "get_item coll (tc_id t) = Some it"
        "carries (last (upserted_as (tc_id t) tcs)) it"
        "reconciled (children_under (tc_id t) tcs) (ti_children it)"
        by (rule reconciled_elim)
      then show ?thesis
        using False by (simp add: other uo co)
    qed
  qed
qed

lemma reconciled_fold_upsert:
  "reconciled xs coll
     \<Longrightarrow> reconciled (xs @ ys) (snd (fold upsertTestItem ys (n, coll)))"
proof (induction ys arbitrary: xs coll n rule: measure_induct_rule [where f = "size_list size"])
  case (less ys)
  show ?case
  proof (cases ys rule: rev_cases)
    case Nil
    then show ?thesis using less.prems by simp
  next
    case (snoc ys' y)
    have "size_list size ys' < size_list size ys" using snoc by simp
    then have r1: "reconciled (xs @ ys') (snd (fold upsertTestItem ys' (n, coll)))"
      using less.IH less.prems by blast
    have "size_list size (tc_children y) < size_list size ys"
      using snoc size_tc_children [of y] by simp
    then have kids: "\<And>zs c m. reconciled zs c
       \<Longrightarrow> reconciled (zs @ tc_children y) (snd (fold upsertTestItem (tc_children y) (m, c)))"
      using less.IH by blast
    have "reconciled ((xs @ ys') @ [y])
        (snd (upsertTestItem y (fst (fold upsertTestItem ys' (n, coll)),
                                snd (fold upsertTestItem ys' (n, coll)))))"
      using r1 kids by (rule reconciled_snoc)
    then show ?thesis using snoc by simp
  qed
qed


section \<open>Pruning twice\<close>

lemma removeOldTests_id: "removeOldTests L f it = Some it' \<Longrightarrow> ti_id it' = ti_id it"
  by (cases it) (auto simp: Let_def split: if_splits)

lemma removeOldTests_each_Cons:
  "removeOldTests_each L f (y # ys)
   = (case removeOldTests L f y of
        None \<Rightarrow> removeOldTests_each L f ys
      | Some y' \<Rightarrow> y' # removeOldTests_each L f ys)"
  by (simp add: removeOldTests_each_def List.map_filter_simps split: option.splits)

lemma removeOldTests_each_Nil: "removeOldTests_each L f [] = []"
  by (simp add: removeOldTests_each_def List.map_filter_simps)

lemma ids_removeOldTests_each:
  "set (map ti_id (removeOldTests_each L f coll)) \<subseteq> set (map ti_id coll)"
proof (induction coll)
  case Nil
  show ?case by (simp add: removeOldTests_each_Nil)
next
  case (Cons y ys)
  then show ?case
    using removeOldTests_id [of L f y]
    by (cases "removeOldTests L f y") (auto simp: removeOldTests_each_Cons)
qed

lemma distinct_removeOldTests_each:
  "distinct (map ti_id coll) \<Longrightarrow> distinct (map ti_id (removeOldTests_each L f coll))"
proof (induction coll)
  case Nil
  show ?case by (simp add: removeOldTests_each_Nil)
next
  case (Cons y ys)
  show ?case
  proof (cases "removeOldTests L f y")
    case None
    then show ?thesis using Cons by (simp add: removeOldTests_each_Cons)
  next
    case (Some y')
    have "ti_id y' = ti_id y" using Some by (rule removeOldTests_id)
    moreover have "ti_id y \<notin> set (map ti_id (removeOldTests_each L f ys))"
      using Cons.prems ids_removeOldTests_each [of L f ys] by auto
    ultimately show ?thesis
      using Cons Some by (simp add: removeOldTests_each_Cons)
  qed
qed

lemma wf_item_removeOldTests:
  "wf_item it \<Longrightarrow> removeOldTests L f it = Some it' \<Longrightarrow> wf_item it'"
proof (induction it arbitrary: it')
  case (TestItem oid i l u r tgs cs)
  have all: "list_all wf_item (removeOldTests_each L f ys)" if "set ys \<subseteq> set cs" for ys
    using that
  proof (induction ys)
    case Nil
    show ?case by (simp add: removeOldTests_each_Nil)
  next
    case (Cons y ys)
    have "wf_item y" using Cons.prems TestItem.prems(1) by (auto simp: list_all_iff)
    then show ?case
      using Cons TestItem.IH [of y]
      by (cases "removeOldTests L f y") (auto simp: removeOldTests_each_Cons)
  qed
  have "it' = TestItem oid i l u r tgs (removeOldTests_each L f cs)"
    using TestItem.prems(2) by (auto simp: Let_def removeOldTests_each_def split: if_splits)
  then show ?case
    using all [of cs] TestItem.prems(1) by (simp add: distinct_removeOldTests_each)
qed

lemma wf_items_removeOldTests_each:
  "wf_items coll \<Longrightarrow> wf_items (removeOldTests_each L f coll)"
proof -
  assume wf: "wf_items coll"
  have "list_all wf_item (removeOldTests_each L f ys)" if "list_all wf_item ys" for ys
    using that
  proof (induction ys)
    case Nil
    show ?case by (simp add: removeOldTests_each_Nil)
  next
    case (Cons y ys)
    then show ?case
      using wf_item_removeOldTests [of y L f]
      by (cases "removeOldTests L f y") (auto simp: removeOldTests_each_Cons)
  qed
  then show ?thesis
    using wf by (simp add: wf_items_def distinct_removeOldTests_each)
qed

lemma kept_removeOldTests:
  "removeOldTests L f it = Some it' \<Longrightarrow> kept L f it'"
proof (induction it arbitrary: it')
  case (TestItem oid i l u r tgs cs)
  have all: "list_all (kept L f) (removeOldTests_each L f ys)" if "set ys \<subseteq> set cs" for ys
    using that
  proof (induction ys)
    case Nil
    show ?case by (simp add: removeOldTests_each_Nil)
  next
    case (Cons y ys)
    then show ?case
      using TestItem.IH [of y]
      by (cases "removeOldTests L f y") (auto simp: removeOldTests_each_Cons)
  qed
  have "it' = TestItem oid i l u r tgs (removeOldTests_each L f cs)"
    and "\<not> (L i = None \<and> (f = None \<or> u = f))"
    using TestItem.prems by (auto simp: Let_def removeOldTests_each_def split: if_splits)
  then show ?case using all [of cs] by simp
qed

lemma kept_removeOldTests_each: "list_all (kept L f) (removeOldTests_each L f coll)"
proof (induction coll)
  case Nil
  show ?case by (simp add: removeOldTests_each_Nil)
next
  case (Cons y ys)
  then show ?case
    using kept_removeOldTests [of L f y]
    by (cases "removeOldTests L f y") (auto simp: removeOldTests_each_Cons)
qed

lemma removeOldTests_kept: "kept L f it \<Longrightarrow> removeOldTests L f it = Some it"
proof (induction it)
  case (TestItem oid i l u r tgs cs)
  have all: "removeOldTests_each L f ys = ys" if "set ys \<subseteq> set cs" for ys
    using that
  proof (induction ys)
    case Nil
    show ?case by (simp add: removeOldTests_each_Nil)
  next
    case (Cons y ys)
    have "kept L f y" using Cons.prems TestItem.prems by (auto simp: list_all_iff)
    then have "removeOldTests L f y = Some y" using Cons.prems TestItem.IH [of y] by simp
    then show ?case using Cons by (simp add: removeOldTests_each_Cons)
  qed
  have "removeOldTests L f (TestItem oid i l u r tgs cs)
      = Some (TestItem oid i l u r tgs (removeOldTests_each L f cs))"
    using TestItem.prems by (auto simp: Let_def removeOldTests_each_def)
  then show ?case using all [of cs] by simp
qed

lemma removeOldTests_each_kept:
  "list_all (kept L f) coll \<Longrightarrow> removeOldTests_each L f coll = coll"
  by (induction coll)
    (simp_all add: removeOldTests_each_Nil removeOldTests_each_Cons removeOldTests_kept)

lemma kept_children: "kept L f it \<Longrightarrow> list_all (kept L f) (ti_children it)"
  by (cases it) simp

lemma kept_add_item:
  "kept L f x \<Longrightarrow> list_all (kept L f) coll \<Longrightarrow> list_all (kept L f) (add_item x coll)"
  by (induction coll) auto

lemma kept_upsert:
  "\<forall>k \<in> set (incoming_ids tc). L k \<noteq> None \<Longrightarrow> list_all (kept L f) coll
     \<Longrightarrow> list_all (kept L f) (snd (upsertTestItem tc (n, coll)))"
proof (induction tc arbitrary: n coll)
  case (TestClass i l d s loc tgs cs)
  let ?tc = "TestClass i l d s loc tgs cs"
  have Li: "L i \<noteq> None" using TestClass.prems(1) by simp
  have step: "list_all (kept L f) (snd (upsertTestItem c (m, cl)))"
    if "c \<in> set cs" "list_all (kept L f) cl" for c m cl
    using that TestClass.IH [of c cl m] TestClass.prems(1) by auto
  have kids: "list_all (kept L f) (snd (fold upsertTestItem cs st))"
    if w: "list_all (kept L f) (snd st)" for st
    by (rule fold_upsert_invariant [where P = "list_all (kept L f)", OF _ w]) (rule step)
  show ?case
  proof (cases "s = ''swift-testing''")
    case True
    then show ?thesis using TestClass.prems(2) by (simp add: upsert_gated)
  next
    case False
    show ?thesis
    proof (cases "get_item coll i")
      case None
      have res: "snd (upsertTestItem ?tc (n, coll)) =
          coll @ [TestItem n i l (map_option fsPath loc) (map_option range loc)
                    (s # map stripDot tgs) (snd (fold upsertTestItem cs (Suc n, [])))]"
        using upsert_created [of ?tc coll n] False None by simp
      have "list_all (kept L f) (snd (fold upsertTestItem cs (Suc n, [])))"
        by (simp add: kids)
      then show ?thesis
        unfolding res using TestClass.prems(2) Li by simp
    next
      case (Some it)
      have res: "snd (upsertTestItem ?tc (n, coll)) =
          add_item (TestItem (ti_oid it) (ti_id it) l (ti_uri it) (map_option range loc)
                      (s # map stripDot tgs) (snd (fold upsertTestItem cs (n, ti_children it)))) coll"
        using upsert_existing [of ?tc coll it n] False Some by simp
      have id: "ti_id it = i" and "it \<in> set coll" using Some get_item_Some by blast+
      then have "kept L f it" using TestClass.prems(2) by (simp add: list_all_iff)
      then have "list_all (kept L f) (snd (fold upsertTestItem cs (n, ti_children it)))"
        by (simp add: kids kept_children)
      then have "kept L f (TestItem (ti_oid it) (ti_id it) l (ti_uri it) (map_option range loc)
                      (s # map stripDot tgs) (snd (fold upsertTestItem cs (n, ti_children it))))"
        using Li id by simp
      then show ?thesis
        unfolding res using TestClass.prems(2) by (rule kept_add_item)
    qed
  qed
qed

lemma kept_fold_upsert:
  assumes ids: "\<forall>k \<in> set (concat (map incoming_ids tcs)). L k \<noteq> None"
    and w: "list_all (kept L f) (snd st)"
  shows "list_all (kept L f) (snd (fold upsertTestItem tcs st))"
proof (rule fold_upsert_invariant [where P = "list_all (kept L f)", OF _ w])
  fix tc n coll
  assume "tc \<in> set tcs" and "list_all (kept L f) coll"
  then show "list_all (kept L f) (snd (upsertTestItem tc (n, coll)))"
    using ids by (intro kept_upsert) auto
qed

section \<open>Reconciling twice\<close>

text \<open>What a pass of \<open>updateTests\<close> leaves: a collection with distinct ids among
  siblings, from which the pruning of the pass deletes nothing and which is reconciled
  with the incoming items.\<close>

lemma updateTests_result:
  assumes "wf_items (items c)"
  shows "wf_items (items (updateTests c incoming f))
       \<and> list_all (kept (createIncomingTestLookup incoming None) f) (items (updateTests c incoming f))
       \<and> reconciled incoming (items (updateTests c incoming f))
       \<and> updateTests c incoming f
           = c\<lparr>items := snd (fold upsertTestItem incoming (nextItem c, pruned c incoming f)),
               nextItem := fst (fold upsertTestItem incoming (nextItem c, pruned c incoming f))\<rparr>"
proof -
  let ?L = "createIncomingTestLookup incoming None"
  let ?up = "fold upsertTestItem incoming (nextItem c, pruned c incoming f)"
  have wf1: "wf_items (pruned c incoming f)"
  proof (cases "length (items c) \<noteq> 0")
    case True
    then show ?thesis using assms by (simp add: pruned_def wf_items_removeOldTests_each)
  next
    case False
    then have "pruned c incoming f = items c" by (simp add: pruned_def)
    then show ?thesis using assms by simp
  qed
  have k1: "list_all (kept ?L f) (pruned c incoming f)"
    by (cases "items c") (simp_all add: pruned_def kept_removeOldTests_each)
  have wf2: "wf_items (snd ?up)"
    using wf1 by (simp add: wf_items_fold_upsert)
  have ids: "\<forall>k \<in> set (concat (map incoming_ids incoming)). ?L k \<noteq> None"
    using lookup_ids [of incoming] by blast
  have k2: "list_all (kept ?L f) (snd ?up)"
    using ids k1 by (intro kept_fold_upsert) simp_all
  have r2: "reconciled incoming (snd ?up)"
    using reconciled_fold_upsert [OF reconciled_Nil, of incoming "nextItem c" "pruned c incoming f"]
    by simp
  have readd: "fold add_item (snd ?up) (snd ?up) = snd ?up"
    using wf2 by (intro readd_same) (simp_all add: wf_items_def)
  have eq: "updateTests c incoming f = c\<lparr>items := snd ?up, nextItem := fst ?up\<rparr>"
    using readd by (simp add: updateTests_def pruned_def Let_def)
  show ?thesis
    using wf2 k2 r2 eq by simp
qed

lemma updateTests_twice:
  assumes "wf_items (items c)"
  shows "updateTests (updateTests c incoming f) incoming f = updateTests c incoming f"
proof -
  let ?L = "createIncomingTestLookup incoming None"
  let ?c1 = "updateTests c incoming f"
  note r = updateTests_result [OF assms, of incoming f]
  have wf: "wf_items (items ?c1)" and k: "list_all (kept ?L f) (items ?c1)"
    and rec: "reconciled incoming (items ?c1)"
    using r by blast+
  have p: "pruned ?c1 incoming f = items ?c1"
    using k by (simp add: pruned_def removeOldTests_each_kept)
  have u: "fold upsertTestItem incoming (nextItem ?c1, items ?c1) = (nextItem ?c1, items ?c1)"
    using wf rec by (rule upsert_reconciled)
  have "updateTests ?c1 incoming f
      = ?c1\<lparr>items := snd (fold upsertTestItem incoming (nextItem ?c1, pruned ?c1 incoming f)),
            nextItem := fst (fold upsertTestItem incoming (nextItem ?c1, pruned ?c1 incoming f))\<rparr>"
    using updateTests_result [OF wf, of incoming f] by blast
  then show ?thesis by (simp add: p u)
qed

lemma upsert_in_place:
  assumes "tc_style tc \<noteq> ''swift-testing''" and "get_item coll (tc_id tc) = Some it"
  shows "map ti_oid (snd (upsertTestItem tc (n, coll))) = map ti_oid coll
       \<and> map ti_id (snd (upsertTestItem tc (n, coll))) = map ti_id coll
       \<and> map ti_uri (snd (upsertTestItem tc (n, coll))) = map ti_uri coll
       \<and> (\<exists>it'. get_item (snd (upsertTestItem tc (n, coll))) (tc_id tc) = Some it'
              \<and> ti_oid it' = ti_oid it \<and> carries tc it')"
proof -
  let ?it = "TestItem (ti_oid it) (ti_id it) (tc_label tc) (ti_uri it)
                  (map_option range (tc_location tc)) (tc_style tc # map stripDot (tc_tags tc))
                  (snd (fold upsertTestItem (tc_children tc) (n, ti_children it)))"
  have res: "snd (upsertTestItem tc (n, coll)) = add_item ?it coll"
    using upsert_existing [OF assms, of n] by simp
  have id: "ti_id it = tc_id tc" using assms(2) get_item_Some by blast
  have keep: "map g (add_item x ys) = map g ys"
    if "get_item ys (ti_id x) = Some y" "g x = g y" for ys x y and g :: "test_item \<Rightarrow> 'b"
    using that by (induction ys) (auto simp: get_item_def split: if_splits)
  have g: "get_item coll (ti_id ?it) = Some it" using assms(2) id by simp
  have a: "map ti_oid (add_item ?it coll) = map ti_oid coll"
    using g by (rule keep) simp
  have b: "map ti_id (add_item ?it coll) = map ti_id coll"
    using g by (rule keep) simp
  have c: "map ti_uri (add_item ?it coll) = map ti_uri coll"
    using g by (rule keep) simp
  have d: "get_item (add_item ?it coll) (tc_id tc) = Some ?it"
    using id by (simp add: get_item_add_item)
  have e: "carries tc ?it" by (simp add: carries_def)
  show ?thesis
    unfolding res using a b c d e by auto
qed

text \<open>
  Claim C6.  The collections of the controller are keyed by id, so the ids of siblings
  differ.  On such a catalog, a second pass of \<open>updateTests\<close> with the same incoming items
  and the same filter file gives the controller of the first pass: the same items with
  the same identities, in the same order, and no item is created.  A pass leaves sibling
  ids distinct at every level.  The upsert of an incoming item whose id exists in the
  collection keeps the identities, ids and uris of all items of the collection in their
  places, and the item of that id (the same object) carries the label, range and tags of
  the incoming item.
\<close>

theorem C6_idempotent_reconciliation:
  "(wf_items (items testController)
    \<longrightarrow> updateTests (updateTests testController incoming filterFile) incoming filterFile
          = updateTests testController incoming filterFile
        \<and> wf_items (items (updateTests testController incoming filterFile)))
   \<and> (tc_style tc \<noteq> ''swift-testing'' \<and> get_item coll (tc_id tc) = Some it
      \<longrightarrow> map ti_oid (snd (upsertTestItem tc (n, coll))) = map ti_oid coll
          \<and> map ti_id (snd (upsertTestItem tc (n, coll))) = map ti_id coll
          \<and> map ti_uri (snd (upsertTestItem tc (n, coll))) = map ti_uri coll
          \<and> (\<exists>it'. get_item (snd (upsertTestItem tc (n, coll))) (tc_id tc) = Some it'
                 \<and> ti_oid it' = ti_oid it \<and> carries tc it'))"
  using updateTests_twice [of testController incoming filterFile]
    updateTests_result [of testController incoming filterFile]
    upsert_in_place [of tc coll it n]
  by blast



text \<open>The example: the class \<open>CTests\<close> of the catalog is renamed to \<open>DTests\<close> in
  \<open>A.swift\<close>; the pass scoped to that file is repeated.  And an incoming item for the class
  that exists is upserted in place.\<close>

lemma example_controller_wf: "wf_items (items example_controller)"
  by (simp add: example_controller_def wf_items_def)

lemma example_get_item:
  "get_item (items example_controller) ''PackageTests.CTests'' = Some (hd (items example_controller))"
  by (simp add: example_controller_def get_item_def)

lemma example_pass:
  "updateTests example_controller example_incoming (Some ''/pkg/Tests/A.swift'')
   = \<lparr> items =
         [TestItem 3 ''PackageTests.DTests'' ''DTests'' (Some ''/pkg/Tests/A.swift'') (Some (3, 9))
            [''XCTest'', ''fast'']
            [TestItem 4 ''PackageTests.DTests/testA'' ''testA'' (Some ''/pkg/Tests/A.swift'')
               (Some (4, 6)) [''XCTest''] []]],
       nextItem = 5 \<rparr>"
  by (simp add: example_controller_def example_incoming_def updateTests_def
      removeOldTests_each_def createIncomingTestLookup_def List.map_filter_simps get_item_def
      createTestItem_def Let_def upsertTestItem.simps)

theorem C6_idempotent_reconciliation_witness:
  "wf_items (items example_controller)
   \<and> updateTests (updateTests example_controller example_incoming (Some ''/pkg/Tests/A.swift''))
         example_incoming (Some ''/pkg/Tests/A.swift'')
       = updateTests example_controller example_incoming (Some ''/pkg/Tests/A.swift'')
   \<and> wf_items (items (updateTests example_controller example_incoming (Some ''/pkg/Tests/A.swift'')))
   \<and> tc_style (TestClass ''PackageTests.CTests'' ''CTestCase'' False ''XCTest'' None [] [])
       \<noteq> ''swift-testing''
   \<and> get_item (items example_controller)
         (tc_id (TestClass ''PackageTests.CTests'' ''CTestCase'' False ''XCTest'' None [] []))
       = Some (hd (items example_controller))
   \<and> map ti_oid (snd (upsertTestItem
           (TestClass ''PackageTests.CTests'' ''CTestCase'' False ''XCTest'' None [] [])
           (3, items example_controller)))
       = map ti_oid (items example_controller)"
proof -
  let ?tc = "TestClass ''PackageTests.CTests'' ''CTestCase'' False ''XCTest'' None [] []"
  have s: "tc_style ?tc \<noteq> ''swift-testing''" by simp
  have g: "get_item (items example_controller) (tc_id ?tc) = Some (hd (items example_controller))"
    using example_get_item by simp
  note T = C6_idempotent_reconciliation [where testController = example_controller
      and incoming = example_incoming and filterFile = "Some ''/pkg/Tests/A.swift''"
      and tc = ?tc and coll = "items example_controller"
      and it = "hd (items example_controller)" and n = 3]
  from T example_controller_wf have
    a: "updateTests (updateTests example_controller example_incoming (Some ''/pkg/Tests/A.swift''))
         example_incoming (Some ''/pkg/Tests/A.swift'')
       = updateTests example_controller example_incoming (Some ''/pkg/Tests/A.swift'')"
    and b: "wf_items (items (updateTests example_controller example_incoming
                               (Some ''/pkg/Tests/A.swift'')))"
    by blast+
  from T s g have
    c: "map ti_oid (snd (upsertTestItem ?tc (3, items example_controller)))
        = map ti_oid (items example_controller)"
    by blast
  show ?thesis
    by (intro conjI example_controller_wf a b s g c)
qed

end
